theory Spec2Isabelle
  imports Main "HOL-Library.Word"
begin

unbundle bit_operations_syntax

section \<open>NetStore: the retrieval-coordination layer of swarm/storage/netstore.go\<close>

subsection \<open>Values that come from outside the file\<close>

text \<open>
  Modelled from the spec: the declaration of \<^verbatim>\<open>Address\<close> is not among the sources. The
  spec calls it an opaque byte sequence, and \<^verbatim>\<open>getOrCreateFetcher\<close> hands it to
  \<^verbatim>\<open>hex.EncodeToString\<close>, which takes a byte slice.
\<close>

type_synonym Address = "8 word list"

text \<open>
  Modelled from the spec: the interface \<^verbatim>\<open>Chunk\<close> is not among the sources. The spec
  pairs an address with its payload bytes; of its methods the file calls \<^verbatim>\<open>Address()\<close>.
\<close>

record Chunk =
  Address :: Address
  Data :: "8 word list"

text \<open>
  An \<^verbatim>\<open>error\<close> is identified by its message and a peer by its name. The wait function
  that the local store returns from \<^verbatim>\<open>Put\<close> is an opaque closure, identified by a number.
\<close>

type_synonym error = string

type_synonym peer = string

datatype waitFunc = WaitFunc nat

text \<open>
  A \<^verbatim>\<open>context.Context\<close> as the code reads it: \<^verbatim>\<open>Value("peer")\<close> and
  \<^verbatim>\<open>Err()\<close>. \<^verbatim>\<open>Err()\<close> is nil until \<^verbatim>\<open>Done()\<close> is closed and non-nil from then on,
  so \<open>ctx_err = None\<close> says that the context has not ended.
\<close>

record Context =
  ctx_peer :: "peer option"
  ctx_err :: "error option"

text \<open>\<^verbatim>\<open>hex.EncodeToString\<close> of the standard library: two lower-case digits per byte.\<close>

definition hextable :: string where
  "hextable = ''0123456789abcdef''"

fun hex_EncodeToString :: "8 word list \<Rightarrow> string" where
  "hex_EncodeToString [] = []"
| "hex_EncodeToString (v # src) =
     hextable ! unat (drop_bit 4 v) # hextable ! unat (v AND 0x0f) # hex_EncodeToString src"

subsection \<open>The local store\<close>

text \<open>
  \<^verbatim>\<open>ChunkStore\<close> is an interface: the NetStore only calls its methods. An interface value
  is a method table with the object it is bound to, here the two methods the file calls and
  the store's own state, which every call may change. A nil result of Go is \<open>None\<close>.
\<close>

record 'st ChunkStore =
  cs_Put :: "Chunk \<Rightarrow> 'st \<Rightarrow> (waitFunc option \<times> error option) \<times> 'st"
  cs_Get :: "Context \<Rightarrow> Address \<Rightarrow> 'st \<Rightarrow> (Chunk option \<times> error option) \<times> 'st"
  cs_state :: 'st

subsection \<open>The fetchers cache\<close>

text \<open>
  The keys of \<^verbatim>\<open>lru.Cache\<close> are \<^verbatim>\<open>interface{}\<close> values: a key carries its dynamic
  type, and two keys of different dynamic types are never equal. The file uses two kinds of
  key: the \<^verbatim>\<open>Address\<close> itself (in \<^verbatim>\<open>Put\<close>) and the string made by
  \<^verbatim>\<open>hex.EncodeToString\<close> (in \<^verbatim>\<open>getOrCreateFetcher\<close>). The cache keeps its
  entries in a Go map with these keys, and a map hashes the key of every access: a string
  can be hashed, a slice cannot, and the access with a slice in the key panics at run time
  (\<open>hashable\<close> and \<open>lru_Get_any\<close> below).
\<close>

datatype key = AddressKey Address | StringKey string

text \<open>
  Modelled from the spec: the bounded cache \<^verbatim>\<open>github.com/hashicorp/golang-lru\<close> is not
  among the sources. The spec describes the Session Table as a bounded-capacity mapping with
  the operations get, put and remove, "evicting least-recently-used entries when full", a
  "standard recency-based eviction structure", and with no eviction callback.
  The entries are kept in order of use, the most recently used first; a lookup that hits and
  an insertion both count as a use. \<open>lru_Peek\<close> reads the table without counting as a use.
  The stored values are never nil, so the pair (value, ok) of \<^verbatim>\<open>Get\<close> is an option.
\<close>

record 'v Cache =
  cache_size :: int
  evictList :: "(key \<times> 'v) list"

text \<open>
  Modelled from the spec: \<^verbatim>\<open>lru.New\<close>, an empty table of a given capacity; a capacity
  that is not positive is an error.
\<close>

definition lru_New :: "int \<Rightarrow> error + 'v Cache" where
  "lru_New sz =
     (if sz \<le> 0 then Inl ''Must provide a positive size''
      else Inr \<lparr>cache_size = sz, evictList = []\<rparr>)"

text \<open>Modelled from the spec: what the table holds under a key; the order of use stays.\<close>

definition lru_Peek :: "key \<Rightarrow> 'v Cache \<Rightarrow> 'v option" where
  "lru_Peek k c = map_of (evictList c) k"

text \<open>Modelled from the spec: an entry becomes the most recently used one.\<close>

definition moveToFront :: "key \<Rightarrow> 'v \<Rightarrow> (key \<times> 'v) list \<Rightarrow> (key \<times> 'v) list" where
  "moveToFront k v es = (k, v) # filter (\<lambda>e. fst e \<noteq> k) es"

text \<open>Modelled from the spec: get, which counts as a use of the entry it finds.\<close>

definition lru_Get :: "key \<Rightarrow> 'v Cache \<Rightarrow> 'v option \<times> 'v Cache" where
  "lru_Get k c =
     (case map_of (evictList c) k of
        Some v \<Rightarrow> (Some v, c\<lparr>evictList := moveToFront k v (evictList c)\<rparr>)
      | None \<Rightarrow> (None, c))"

text \<open>
  Modelled from the spec: put. A key that is present gets the new value; a new key is added
  and, when the table then holds more entries than its capacity, the least recently used
  entry is evicted. The result says whether an entry was evicted.
\<close>

definition lru_Add :: "key \<Rightarrow> 'v \<Rightarrow> 'v Cache \<Rightarrow> bool \<times> 'v Cache" where
  "lru_Add k v c =
     (case map_of (evictList c) k of
        Some _ \<Rightarrow> (False, c\<lparr>evictList := moveToFront k v (evictList c)\<rparr>)
      | None \<Rightarrow>
          (let es = (k, v) # evictList c
           in if int (length es) > cache_size c
              then (True, c\<lparr>evictList := butlast es\<rparr>)
              else (False, c\<lparr>evictList := es\<rparr>)))"

text \<open>Modelled from the spec: remove.\<close>

definition lru_Remove :: "key \<Rightarrow> 'v Cache \<Rightarrow> 'v Cache" where
  "lru_Remove k c = c\<lparr>evictList := filter (\<lambda>e. fst e \<noteq> k) (evictList c)\<rparr>"

subsection \<open>The fetcher\<close>

text \<open>
  The struct \<^verbatim>\<open>fetcher\<close>. \<open>deliveredC\<close> is \<open>True\<close> once the channel is closed.
  \<open>cancel\<close> is the closure \<^verbatim>\<open>destroy\<close> of \<^verbatim>\<open>getOrCreateFetcher\<close>, given by the key it
  has captured; the context that the same closure cancels belongs to this fetcher alone, and
  \<open>ctxCancelled\<close> is its state. \<open>peers\<close> is the key set of the \<^verbatim>\<open>sync.Map\<close>.
  \<open>requestCnt\<close> is an \<^verbatim>\<open>int32\<close>. The field \<^verbatim>\<open>fetch\<close> is a function of the remote
  retrieval mechanism: \<open>fetchCalls\<close> records the contexts it has been invoked with, and
  \<open>cancelCalls\<close> counts the invocations of \<open>cancel\<close>.
\<close>

record fetcher =
  addr :: Address
  chunk :: "Chunk option"
  deliveredC :: bool
  fetchCalls :: "Context list"
  cancel :: key
  cancelCalls :: nat
  ctxCancelled :: bool
  peers :: "peer set"
  requestCnt :: "32 word"

definition newFetcher :: "Address \<Rightarrow> key \<Rightarrow> fetcher" where
  "newFetcher a k =
     \<lparr>addr = a, chunk = None, deliveredC = False, fetchCalls = [], cancel = k,
      cancelCalls = 0, ctxCancelled = False, peers = {}, requestCnt = 0\<rparr>"

text \<open>
  \<^verbatim>\<open>deliver\<close>: the assignment, then \<^verbatim>\<open>close(f.deliveredC)\<close>. Closing a closed channel
  panics in Go; the assignment has happened by then.
\<close>

definition deliver :: "Chunk \<Rightarrow> fetcher \<Rightarrow> error option \<times> fetcher" where
  "deliver ch f =
     (let f1 = f\<lparr>chunk := Some ch\<rparr>
      in if deliveredC f1 then (Some ''close of closed channel'', f1)
         else (None, f1\<lparr>deliveredC := True\<rparr>))"

subsection \<open>The NetStore\<close>

text \<open>
  The fetchers are shared objects: the cache, the closures handed to callers and the
  requests that wait all hold the same \<^verbatim>\<open>*fetcher\<close>. \<open>heap\<close> is the store of these
  objects and a pointer is an index into it; \<^verbatim>\<open>newFetcher\<close> allocates at the end.
  The mutex \<^verbatim>\<open>mu\<close> is held for the whole of \<^verbatim>\<open>Put\<close> and \<^verbatim>\<open>get\<close>: each of them is
  one function from state to state.
\<close>

record 'st NetStore =
  store :: "'st ChunkStore"
  fetchers :: "nat Cache"
  heap :: "fetcher list"

datatype 'a outcome = Returns 'a | Panics error

definition heap_get :: "fetcher list \<Rightarrow> nat \<Rightarrow> fetcher option" where
  "heap_get h p = (if p < length h then Some (h ! p) else None)"

definition NewNetStore :: "'st ChunkStore \<Rightarrow> int \<Rightarrow> error + 'st NetStore" where
  "NewNetStore st defaultChunkRequestsCacheCapacity =
     (case lru_New defaultChunkRequestsCacheCapacity of
        Inl err \<Rightarrow> Inl err
      | Inr c \<Rightarrow> Inr \<lparr>store = st, fetchers = c, heap = []\<rparr>)"

definition store_Put :: "Chunk \<Rightarrow> 'st NetStore \<Rightarrow> (waitFunc option \<times> error option) \<times> 'st NetStore" where
  "store_Put ch n =
     (let (r, s) = cs_Put (store n) ch (cs_state (store n))
      in (r, n\<lparr>store := (store n)\<lparr>cs_state := s\<rparr>\<rparr>))"

definition store_Get :: "Context \<Rightarrow> Address \<Rightarrow> 'st NetStore \<Rightarrow> (Chunk option \<times> error option) \<times> 'st NetStore" where
  "store_Get ctx ref n =
     (let (r, s) = cs_Get (store n) ctx ref (cs_state (store n))
      in (r, n\<lparr>store := (store n)\<lparr>cs_state := s\<rparr>\<rparr>))"

text \<open>
  \<^verbatim>\<open>n.fetchers.Get\<close> with any interface value as the key. The dynamic type of an
  \<open>AddressKey\<close> is the slice type \<^verbatim>\<open>storage.Address\<close>, which Go cannot hash: the map
  access inside the cache panics, whatever the cache holds. With a string key it is
  \<open>lru_Get\<close>.
\<close>

fun hashable :: "key \<Rightarrow> bool" where
  "hashable (AddressKey a) = False"
| "hashable (StringKey s) = True"

definition lru_Get_any :: "key \<Rightarrow> 'v Cache \<Rightarrow> ('v option \<times> 'v Cache) outcome" where
  "lru_Get_any k c =
     (if hashable k then Returns (lru_Get k c)
      else Panics ''runtime error: hash of unhashable type storage.Address'')"

text \<open>\<^verbatim>\<open>f.(*fetcher).deliver(ch)\<close> on the object a pointer names.\<close>

definition deliver_at :: "nat \<Rightarrow> Chunk \<Rightarrow> 'st NetStore \<Rightarrow> error option \<times> 'st NetStore" where
  "deliver_at p ch n =
     (case heap_get (heap n) p of
        None \<Rightarrow> (Some ''invalid memory address or nil pointer dereference'', n)
      | Some f \<Rightarrow> (let (e, f1) = deliver ch f in (e, n\<lparr>heap := (heap n)[p := f1]\<rparr>)))"

definition Put :: "Chunk \<Rightarrow> 'st NetStore \<Rightarrow> (waitFunc option \<times> error option) outcome \<times> 'st NetStore" where
  "Put ch n =
     (let ((wait, err), n1) = store_Put ch n
      in if err \<noteq> None then (Returns (None, err), n1)
         else if wait = None then (Returns (None, None), n1)
         else (case lru_Get_any (AddressKey (Address ch)) (fetchers n1) of
                 Panics msg \<Rightarrow> (Panics msg, n1)
               | Returns (f, c) \<Rightarrow>
                   (let n2 = n1\<lparr>fetchers := c\<rparr>
                    in case f of
                         None \<Rightarrow> (Returns (wait, None), n2)
                       | Some p \<Rightarrow>
                           (case deliver_at p ch n2 of
                              (Some msg, n3) \<Rightarrow> (Panics msg, n3)
                            | (None, n3) \<Rightarrow> (Returns (wait, None), n3)))))"

text \<open>
  In \<^verbatim>\<open>getOrCreateFetcher\<close> the key is a string, which can be hashed: the lookup is
  \<open>lru_Get\<close>.
\<close>

definition getOrCreateFetcher :: "Address \<Rightarrow> 'st NetStore \<Rightarrow> nat \<times> 'st NetStore" where
  "getOrCreateFetcher ref n =
     (let key = StringKey (hex_EncodeToString ref)
      in case lru_Get key (fetchers n) of
           (Some f, c) \<Rightarrow> (f, n\<lparr>fetchers := c\<rparr>)
         | (None, c) \<Rightarrow>
             (let p = length (heap n);
                  (_, c1) = lru_Add key p c
              in (p, n\<lparr>fetchers := c1, heap := heap n @ [newFetcher ref key]\<rparr>)))"

text \<open>
  \<^verbatim>\<open>get\<close> returns a chunk, a fetch function and an error. The fetch function is the method
  value \<^verbatim>\<open>f.Fetch\<close>, given by the pointer \<open>f\<close> it is bound to.
\<close>

definition get :: "Context \<Rightarrow> Address \<Rightarrow> 'st NetStore \<Rightarrow> (Chunk option \<times> nat option \<times> error option) \<times> 'st NetStore" where
  "get ctx ref n =
     (let ((c, err), n1) = store_Get ctx ref n
      in if err = None then ((c, None, None), n1)
         else (let (f, n2) = getOrCreateFetcher ref n1
               in ((None, Some f, None), n2)))"

definition Has :: "Context \<Rightarrow> Address \<Rightarrow> 'st NetStore \<Rightarrow> nat option \<times> 'st NetStore" where
  "Has ctx ref n = (let ((_, fetch, _), n1) = get ctx ref n in (fetch, n1))"

text \<open>
  \<^verbatim>\<open>Get\<close> either returns what \<^verbatim>\<open>get\<close> gave it (\<open>Inl\<close>), or goes on as the call
  \<^verbatim>\<open>fetch(rctx)\<close> of the fetcher \<open>f\<close> (\<open>Inr f\<close>), whose two halves follow.
\<close>

definition Get :: "Context \<Rightarrow> Address \<Rightarrow> 'st NetStore \<Rightarrow> ((Chunk option \<times> error option) + nat) \<times> 'st NetStore" where
  "Get rctx ref n =
     (let ((c, fetch, err), n1) = get rctx ref n
      in case fetch of None \<Rightarrow> (Inl (c, err), n1) | Some f \<Rightarrow> (Inr f, n1))"

subsection \<open>Fetch\<close>

text \<open>
  \<^verbatim>\<open>Fetch\<close> blocks in its \<^verbatim>\<open>select\<close>, and other calls run while it does. It is two
  steps here. \<open>Fetch_enter\<close> is the code before the \<^verbatim>\<open>select\<close>: the increment of
  \<open>requestCnt\<close>, the registration of the peer and the call of \<^verbatim>\<open>f.fetch\<close>.
  \<open>Fetch_exit\<close> is the \<^verbatim>\<open>select\<close> with the case that fires, the \<^verbatim>\<open>return\<close> and the
  deferred calls in their order: the peer is deleted, then the count is decremented and,
  when the decrement gives zero, \<^verbatim>\<open>f.cancel()\<close> runs. A case fires only when its channel is
  ready; \<open>None\<close> says that it is not, so with \<open>None\<close> for both cases the call stays
  blocked. When both are ready Go takes either.
\<close>

definition heap_upd :: "nat \<Rightarrow> (fetcher \<Rightarrow> fetcher) \<Rightarrow> 'st NetStore \<Rightarrow> 'st NetStore" where
  "heap_upd p g n =
     (case heap_get (heap n) p of
        None \<Rightarrow> n
      | Some f \<Rightarrow> n\<lparr>heap := (heap n)[p := g f]\<rparr>)"

definition Fetch_enter :: "Context \<Rightarrow> nat \<Rightarrow> 'st NetStore \<Rightarrow> 'st NetStore" where
  "Fetch_enter rctx p n =
     heap_upd p (\<lambda>f. f\<lparr>requestCnt := requestCnt f + 1,
                      peers := (case ctx_peer rctx of None \<Rightarrow> peers f | Some pr \<Rightarrow> insert pr (peers f)),
                      fetchCalls := fetchCalls f @ [rctx]\<rparr>) n"

text \<open>
  The closure \<^verbatim>\<open>destroy\<close>: \<^verbatim>\<open>n.fetchers.Remove(key)\<close>, then \<^verbatim>\<open>cancel()\<close> of the
  context made for this fetcher.
\<close>

definition destroy :: "nat \<Rightarrow> 'st NetStore \<Rightarrow> 'st NetStore" where
  "destroy p n =
     (case heap_get (heap n) p of
        None \<Rightarrow> n
      | Some f \<Rightarrow>
          n\<lparr>fetchers := lru_Remove (cancel f) (fetchers n),
            heap := (heap n)[p := f\<lparr>ctxCancelled := True, cancelCalls := Suc (cancelCalls f)\<rparr>]\<rparr>)"

datatype select_case = ctx_Done | delivered

definition Fetch_select :: "Context \<Rightarrow> select_case \<Rightarrow> fetcher \<Rightarrow> (Chunk option \<times> error option) option" where
  "Fetch_select rctx sc f =
     (case sc of
        ctx_Done \<Rightarrow> (if ctx_err rctx \<noteq> None then Some (None, ctx_err rctx) else None)
      | delivered \<Rightarrow> (if deliveredC f then Some (chunk f, None) else None))"

definition Fetch_deferred :: "Context \<Rightarrow> nat \<Rightarrow> 'st NetStore \<Rightarrow> 'st NetStore" where
  "Fetch_deferred rctx p n =
     (let n1 = heap_upd p (\<lambda>f. f\<lparr>peers := (case ctx_peer rctx of None \<Rightarrow> peers f
                                              | Some pr \<Rightarrow> peers f - {pr})\<rparr>) n;
          n2 = heap_upd p (\<lambda>f. f\<lparr>requestCnt := requestCnt f - 1\<rparr>) n1
      in case heap_get (heap n2) p of
           None \<Rightarrow> n2
         | Some f \<Rightarrow> (if requestCnt f = 0 then destroy p n2 else n2))"

definition Fetch_exit :: "Context \<Rightarrow> select_case \<Rightarrow> nat \<Rightarrow> 'st NetStore \<Rightarrow> ((Chunk option \<times> error option) \<times> 'st NetStore) option" where
  "Fetch_exit rctx sc p n =
     (case heap_get (heap n) p of
        None \<Rightarrow> None
      | Some f \<Rightarrow>
          (case Fetch_select rctx sc f of
             None \<Rightarrow> None
           | Some r \<Rightarrow> Some (r, Fetch_deferred rctx p n)))"

text \<open>
  Several waiters of one fetcher that leave \<^verbatim>\<open>Fetch\<close> one after another, each with its
  own context and through the case of the \<^verbatim>\<open>select\<close> that fires for it; the result is
  what each of them returns, in that order, and \<open>None\<close> when one of them cannot leave that
  way.
\<close>

fun Fetch_exits :: "(Context \<times> select_case) list \<Rightarrow> nat \<Rightarrow> 'st NetStore \<Rightarrow> (Chunk option \<times> error option) list option" where
  "Fetch_exits [] p n = Some []"
| "Fetch_exits (w # ws) p n =
     (case Fetch_exit (fst w) (snd w) p n of
        None \<Rightarrow> None
      | Some (r, n') \<Rightarrow> map_option ((#) r) (Fetch_exits ws p n'))"

text \<open>
  Lookups of several addresses, one after another, through \<^verbatim>\<open>get\<close>.
\<close>

definition lookups :: "Context \<Rightarrow> Address list \<Rightarrow> 'st NetStore \<Rightarrow> 'st NetStore" where
  "lookups ctx as n = fold (\<lambda>a m. snd (get ctx a m)) as n"

subsection \<open>A store to run the code on\<close>

text \<open>
  An in-memory store for concrete runs: the chunks written so far. \<^verbatim>\<open>Put\<close> of an address
  it holds reports "already present" (nil wait), \<^verbatim>\<open>Get\<close> of an address it lacks reports
  an error.
\<close>

definition mapStore_Put :: "Chunk \<Rightarrow> Chunk list \<Rightarrow> (waitFunc option \<times> error option) \<times> Chunk list" where
  "mapStore_Put ch s =
     (if Address ch \<in> Address ` set s then ((None, None), s)
      else ((Some (WaitFunc (length s)), None), ch # s))"

definition mapStore_Get :: "Context \<Rightarrow> Address \<Rightarrow> Chunk list \<Rightarrow> (Chunk option \<times> error option) \<times> Chunk list" where
  "mapStore_Get ctx ref s =
     (case find (\<lambda>c. Address c = ref) s of
        Some c \<Rightarrow> ((Some c, None), s)
      | None \<Rightarrow> ((None, Some ''chunk not found''), s))"

definition mapStore :: "Chunk list \<Rightarrow> Chunk list ChunkStore" where
  "mapStore s = \<lparr>cs_Put = mapStore_Put, cs_Get = mapStore_Get, cs_state = s\<rparr>"

subsection \<open>Invariants\<close>

text \<open>
  \<open>lru_inv\<close>: the cache holds a key once and never more entries than its size.
  \<open>hexKeyed\<close>: every key in the cache is a string, and the key that the \<open>cancel\<close> of a
  fetcher removes is the hex string of the fetcher's address. \<open>registered\<close>: every entry
  of the cache names a fetcher of the heap, under the hex key of that fetcher's address.
  All hold of a new NetStore and after every step.
\<close>

definition lru_inv :: "'v Cache \<Rightarrow> bool" where
  "lru_inv c \<longleftrightarrow> distinct (map fst (evictList c)) \<and> int (length (evictList c)) \<le> cache_size c"

definition registered :: "'st NetStore \<Rightarrow> bool" where
  "registered n \<longleftrightarrow>
     (\<forall>e \<in> set (evictList (fetchers n)).
        \<exists>f. heap_get (heap n) (snd e) = Some f \<and> fst e = StringKey (hex_EncodeToString (addr f)))"

definition hexKeyed :: "'st NetStore \<Rightarrow> bool" where
  "hexKeyed n \<longleftrightarrow>
     (\<forall>e \<in> set (evictList (fetchers n)). \<exists>s. fst e = StringKey s)
     \<and> (\<forall>f \<in> set (heap n). cancel f = StringKey (hex_EncodeToString (addr f)))"

subsection \<open>Concrete inputs\<close>

definition addrX :: Address where
  "addrX = [0x01]"

definition addrY :: Address where
  "addrY = [0xab]"

definition addrZ :: Address where
  "addrZ = [0xff]"

definition chunkX :: Chunk where
  "chunkX = \<lparr>Address = addrX, Data = [0x68, 0x65, 0x6c, 0x6c, 0x6f]\<rparr>"

definition chunkX' :: Chunk where
  "chunkX' = \<lparr>Address = addrX, Data = [0x77]\<rparr>"

definition chunkY :: Chunk where
  "chunkY = \<lparr>Address = addrY, Data = [0x77, 0x6f, 0x72, 0x6c, 0x64]\<rparr>"

definition live :: Context where
  "live = \<lparr>ctx_peer = Some ''peer1'', ctx_err = None\<rparr>"

definition cancelled :: Context where
  "cancelled = \<lparr>ctx_peer = Some ''peer1'', ctx_err = Some ''context canceled''\<rparr>"

definition emptyNetStore :: "'st ChunkStore \<Rightarrow> int \<Rightarrow> 'st NetStore" where
  "emptyNetStore st cap = \<lparr>store = st, fetchers = \<lparr>cache_size = cap, evictList = []\<rparr>, heap = []\<rparr>"

text \<open>A store whose every call fails, as a closed database does.\<close>

definition brokenStore :: "unit ChunkStore" where
  "brokenStore =
     \<lparr>cs_Put = (\<lambda>ch s. ((None, Some ''leveldb: closed''), s)),
      cs_Get = (\<lambda>ctx ref s. ((None, Some ''leveldb: closed''), s)),
      cs_state = ()\<rparr>"

text \<open>
  \<open>netstore0\<close> is a new NetStore of capacity 2 on an empty store, \<open>netstoreY\<close> one whose
  store holds \<open>chunkY\<close>. In \<open>waitingX\<close> one reader has asked for \<open>addrX\<close>, which the
  store lacks, and waits in \<^verbatim>\<open>Fetch\<close>; in \<open>presentX\<close> the chunk of that address has
  reached the local store while the reader waits.
\<close>

definition netstore0 :: "Chunk list NetStore" where
  "netstore0 = emptyNetStore (mapStore []) 2"

definition netstoreY :: "Chunk list NetStore" where
  "netstoreY = emptyNetStore (mapStore [chunkY]) 2"

definition waitingX :: "Chunk list NetStore" where
  "waitingX = Fetch_enter live 0 (snd (get live addrX netstore0))"

definition presentX :: "Chunk list NetStore" where
  "presentX = waitingX\<lparr>store := mapStore [chunkX]\<rparr>"


text \<open>
  \<open>fetcherX\<close> is the fetcher of \<open>addrX\<close> as it is in \<open>waitingX\<close>. In \<open>deliveredX\<close>
  \<open>chunkX\<close> has been delivered to it. In \<open>fullXY\<close> a lookup of \<open>addrY\<close> has missed as
  well, so the cache of capacity 2 is full, the fetcher of \<open>addrX\<close> being the least
  recently used.
\<close>

definition fetcherX :: fetcher where
  "fetcherX = \<lparr>addr = addrX, chunk = None, deliveredC = False, fetchCalls = [live],
               cancel = StringKey ''01'', cancelCalls = 0, ctxCancelled = False,
               peers = {''peer1''}, requestCnt = 1\<rparr>"

definition deliveredX :: "Chunk list NetStore" where
  "deliveredX = snd (deliver_at 0 chunkX waitingX)"

definition fullXY :: "Chunk list NetStore" where
  "fullXY = snd (get live addrY waitingX)"

section \<open>Properties\<close>

subsection \<open>The cache as a map\<close>

lemma map_of_moveToFront: "map_of (moveToFront k v es) = (map_of es)(k \<mapsto> v)"
proof
  fix x
  have "x \<noteq> k \<Longrightarrow> map_of (filter (\<lambda>e. fst e \<noteq> k) es) x = map_of es x"
    by (induction es) auto
  then show "map_of (moveToFront k v es) x = ((map_of es)(k \<mapsto> v)) x"
    by (simp add: moveToFront_def)
qed

lemma map_of_remove: "map_of (filter (\<lambda>e. fst e \<noteq> k) es) = (map_of es)(k := None)"
proof
  fix x
  show "map_of (filter (\<lambda>e. fst e \<noteq> k) es) x = ((map_of es)(k := None)) x"
    by (induction es) auto
qed

lemma lru_Peek_Get: "lru_Peek k' (snd (lru_Get k c)) = lru_Peek k' c"
  by (auto simp: lru_Peek_def lru_Get_def map_of_moveToFront split: option.splits)

lemma fst_lru_Get: "fst (lru_Get k c) = lru_Peek k c"
  by (simp add: lru_Peek_def lru_Get_def split: option.splits)

lemma cache_size_Get: "cache_size (snd (lru_Get k c)) = cache_size c"
  by (simp add: lru_Get_def split: option.splits)

lemma lru_Peek_Remove: "lru_Peek k' (lru_Remove k c) = (if k' = k then None else lru_Peek k' c)"
  by (simp add: lru_Peek_def lru_Remove_def map_of_remove)

lemma lru_Peek_Add_same: "0 < cache_size c \<Longrightarrow> lru_Peek k (snd (lru_Add k v c)) = Some v"
  by (cases "evictList c")
    (auto simp: lru_Peek_def lru_Add_def map_of_moveToFront Let_def split: option.splits)

subsection \<open>The steps of the store and of the table\<close>

lemma NewNetStore_empty: "0 < cap \<Longrightarrow> NewNetStore st cap = Inr (emptyNetStore st cap)"
  by (simp add: NewNetStore_def lru_New_def emptyNetStore_def)

lemma store_Get_simps:
  "fst (store_Get ctx ref n) = fst (cs_Get (store n) ctx ref (cs_state (store n)))"
  "fetchers (snd (store_Get ctx ref n)) = fetchers n"
  "heap (snd (store_Get ctx ref n)) = heap n"
  "cs_state (store (snd (store_Get ctx ref n))) = snd (cs_Get (store n) ctx ref (cs_state (store n)))"
  by (simp_all add: store_Get_def split: prod.splits)

lemma store_Put_simps:
  "fst (store_Put ch n) = fst (cs_Put (store n) ch (cs_state (store n)))"
  "fetchers (snd (store_Put ch n)) = fetchers n"
  "heap (snd (store_Put ch n)) = heap n"
  "cs_state (store (snd (store_Put ch n))) = snd (cs_Put (store n) ch (cs_state (store n)))"
  by (simp_all add: store_Put_def split: prod.splits)

lemma get_hit:
  assumes "fst (cs_Get (store n) ctx ref (cs_state (store n))) = (c, None)"
  shows "get ctx ref n = ((c, None, None), snd (store_Get ctx ref n))"
proof -
  have "fst (store_Get ctx ref n) = (c, None)"
    using assms by (simp add: store_Get_simps)
  then show ?thesis
    by (cases "store_Get ctx ref n") (simp add: get_def)
qed

lemma get_miss:
  assumes "fst (cs_Get (store n) ctx ref (cs_state (store n))) = (c, Some e)"
  shows "get ctx ref n =
           ((None, Some (fst (getOrCreateFetcher ref (snd (store_Get ctx ref n)))), None),
            snd (getOrCreateFetcher ref (snd (store_Get ctx ref n))))"
proof -
  have "fst (store_Get ctx ref n) = (c, Some e)"
    using assms by (simp add: store_Get_simps)
  then show ?thesis
    by (cases "store_Get ctx ref n") (simp add: get_def split: prod.splits)
qed

lemma getOrCreateFetcher_hit:
  assumes "lru_Peek (StringKey (hex_EncodeToString ref)) (fetchers n) = Some f"
  shows "getOrCreateFetcher ref n =
           (f, n\<lparr>fetchers := snd (lru_Get (StringKey (hex_EncodeToString ref)) (fetchers n))\<rparr>)"
proof -
  have "fst (lru_Get (StringKey (hex_EncodeToString ref)) (fetchers n)) = Some f"
    using assms by (simp add: fst_lru_Get)
  then show ?thesis
    by (cases "lru_Get (StringKey (hex_EncodeToString ref)) (fetchers n)")
      (simp add: getOrCreateFetcher_def)
qed

lemma getOrCreateFetcher_miss:
  assumes "lru_Peek (StringKey (hex_EncodeToString ref)) (fetchers n) = None"
  shows "getOrCreateFetcher ref n =
           (length (heap n),
            n\<lparr>fetchers := snd (lru_Add (StringKey (hex_EncodeToString ref)) (length (heap n)) (fetchers n)),
              heap := heap n @ [newFetcher ref (StringKey (hex_EncodeToString ref))]\<rparr>)"
proof -
  have "lru_Get (StringKey (hex_EncodeToString ref)) (fetchers n) = (None, fetchers n)"
    using assms by (simp add: lru_Get_def lru_Peek_def)
  then show ?thesis
    by (simp add: getOrCreateFetcher_def Let_def split: prod.splits)
qed

lemma getOrCreateFetcher_heap:
  "heap (snd (getOrCreateFetcher ref n)) = heap n
   \<or> heap (snd (getOrCreateFetcher ref n)) = heap n @ [newFetcher ref (StringKey (hex_EncodeToString ref))]"
  by (cases "lru_Peek (StringKey (hex_EncodeToString ref)) (fetchers n)")
    (simp_all add: getOrCreateFetcher_hit getOrCreateFetcher_miss)

lemma getOrCreateFetcher_store:
  "store (snd (getOrCreateFetcher ref n)) = store n"
  by (cases "lru_Peek (StringKey (hex_EncodeToString ref)) (fetchers n)")
    (simp_all add: getOrCreateFetcher_hit getOrCreateFetcher_miss)

lemma getOrCreateFetcher_fst:
  "fst (getOrCreateFetcher ref n)
     = (case lru_Peek (StringKey (hex_EncodeToString ref)) (fetchers n) of
          Some f \<Rightarrow> f
        | None \<Rightarrow> length (heap n))"
  by (cases "lru_Peek (StringKey (hex_EncodeToString ref)) (fetchers n)")
    (simp_all add: getOrCreateFetcher_hit getOrCreateFetcher_miss)

lemma getOrCreateFetcher_registered:
  assumes "0 < cache_size (fetchers n)"
  shows "lru_Peek (StringKey (hex_EncodeToString ref)) (fetchers (snd (getOrCreateFetcher ref n)))
           = Some (fst (getOrCreateFetcher ref n))"
  using assms
  by (cases "lru_Peek (StringKey (hex_EncodeToString ref)) (fetchers n)")
    (simp_all add: getOrCreateFetcher_hit getOrCreateFetcher_miss lru_Peek_Get lru_Peek_Add_same)

subsection \<open>The steps of Fetch\<close>

lemma heap_get_Some: "heap_get h p = Some f \<longleftrightarrow> p < length h \<and> h ! p = f"
  by (auto simp: heap_get_def)

lemma heap_get_update:
  "heap_get h p = Some f \<Longrightarrow> heap_get (h[p := g]) q = (if q = p then Some g else heap_get h q)"
  by (auto simp: heap_get_def)

lemma heap_upd_Some:
  "heap_get (heap n) p = Some f \<Longrightarrow> heap_upd p g n = n\<lparr>heap := (heap n)[p := g f]\<rparr>"
  by (simp add: heap_upd_def)

lemma Fetch_enter_Some:
  assumes "heap_get (heap n) p = Some f"
  shows "Fetch_enter rctx p n =
           n\<lparr>heap := (heap n)[p := f\<lparr>requestCnt := requestCnt f + 1,
                peers := (case ctx_peer rctx of None \<Rightarrow> peers f | Some pr \<Rightarrow> insert pr (peers f)),
                fetchCalls := fetchCalls f @ [rctx]\<rparr>]\<rparr>"
  by (simp add: Fetch_enter_def heap_upd_Some [OF assms])

lemma Fetch_deferred_Some:
  assumes "heap_get (heap n) p = Some f"
  shows "Fetch_deferred rctx p n =
           (if requestCnt f - 1 = 0
            then n\<lparr>fetchers := lru_Remove (cancel f) (fetchers n),
                   heap := (heap n)[p := f\<lparr>peers := (case ctx_peer rctx of None \<Rightarrow> peers f
                                                    | Some pr \<Rightarrow> peers f - {pr}),
                                         requestCnt := requestCnt f - 1,
                                         ctxCancelled := True,
                                         cancelCalls := Suc (cancelCalls f)\<rparr>]\<rparr>
            else n\<lparr>heap := (heap n)[p := f\<lparr>peers := (case ctx_peer rctx of None \<Rightarrow> peers f
                                                    | Some pr \<Rightarrow> peers f - {pr}),
                                         requestCnt := requestCnt f - 1\<rparr>]\<rparr>)"
proof -
  have p: "p < length (heap n)"
    using assms by (simp add: heap_get_Some)
  show ?thesis
    using assms p
    by (simp add: Fetch_deferred_def heap_upd_Some heap_get_update Let_def destroy_def)
qed

lemma Fetch_exit_Some:
  assumes "heap_get (heap n) p = Some f"
  shows "Fetch_exit rctx sc p n =
           (case Fetch_select rctx sc f of
              None \<Rightarrow> None
            | Some r \<Rightarrow> Some (r, Fetch_deferred rctx p n))"
  by (simp add: Fetch_exit_def assms)

lemma deliver_at_Some:
  assumes "heap_get (heap n) p = Some f"
  shows "deliver_at p ch n =
           (fst (deliver ch f), n\<lparr>heap := (heap n)[p := snd (deliver ch f)]\<rparr>)"
  by (simp add: deliver_at_def assms split: prod.splits)

lemma Fetch_deferred_keeps_delivery:
  assumes "heap_get (heap n) p = Some f"
  shows "\<exists>f'. heap_get (heap (Fetch_deferred rctx p n)) p = Some f'
              \<and> chunk f' = chunk f \<and> deliveredC f' = deliveredC f"
  using assms by (simp add: Fetch_deferred_Some [OF assms] heap_get_update)

lemma Fetch_enter_keeps_delivery:
  assumes "heap_get (heap n) p = Some f"
  shows "\<exists>f'. heap_get (heap (Fetch_enter rctx p n)) p = Some f'
              \<and> chunk f' = chunk f \<and> deliveredC f' = deliveredC f"
  using assms by (simp add: Fetch_enter_Some [OF assms] heap_get_update)

lemma Fetch_exits_delivered:
  assumes "heap_get (heap n) p = Some f" and "deliveredC f" and "chunk f = c"
    and "\<forall>w \<in> set ws. snd w = ctx_Done \<longrightarrow> ctx_err (fst w) \<noteq> None"
  shows "Fetch_exits ws p n
           = Some (map (\<lambda>w. case snd w of ctx_Done \<Rightarrow> (None, ctx_err (fst w))
                                          | delivered \<Rightarrow> (c, None)) ws)"
  using assms
proof (induction ws arbitrary: n f)
  case Nil
  then show ?case by simp
next
  case (Cons w ws)
  obtain f' where f': "heap_get (heap (Fetch_deferred (fst w) p n)) p = Some f'"
      "chunk f' = chunk f" "deliveredC f' = deliveredC f"
    using Fetch_deferred_keeps_delivery [OF Cons.prems(1)] by blast
  have sel: "Fetch_select (fst w) (snd w) f
               = Some (case snd w of ctx_Done \<Rightarrow> (None, ctx_err (fst w))
                                   | delivered \<Rightarrow> (c, None))"
    using Cons.prems(2,3,4) by (cases "snd w") (auto simp: Fetch_select_def)
  have "deliveredC f'" "chunk f' = c"
    using f'(2,3) Cons.prems(2,3) by simp_all
  moreover have "\<forall>w \<in> set ws. snd w = ctx_Done \<longrightarrow> ctx_err (fst w) \<noteq> None"
    using Cons.prems(4) by simp
  ultimately have rest: "Fetch_exits ws p (Fetch_deferred (fst w) p n)
                = Some (map (\<lambda>w. case snd w of ctx_Done \<Rightarrow> (None, ctx_err (fst w))
                                              | delivered \<Rightarrow> (c, None)) ws)"
    by (rule Cons.IH [OF f'(1)])
  show ?case
    by (simp add: Fetch_exit_Some [OF Cons.prems(1)] sel rest)
qed

lemma getOrCreateFetcher_present:
  assumes "lru_Peek (StringKey (hex_EncodeToString ref)) (fetchers n) = Some f"
  shows "fst (getOrCreateFetcher ref n) = f"
    and "heap (snd (getOrCreateFetcher ref n)) = heap n"
    and "lru_Peek k (fetchers (snd (getOrCreateFetcher ref n))) = lru_Peek k (fetchers n)"
  by (simp_all add: getOrCreateFetcher_hit [OF assms] lru_Peek_Get)

lemma getOrCreateFetcher_repeat:
  assumes "lru_Peek (StringKey (hex_EncodeToString ref)) (fetchers n) = Some f"
  shows "lru_Peek (StringKey (hex_EncodeToString ref))
           (fetchers (((\<lambda>m. snd (getOrCreateFetcher ref m)) ^^ i) n)) = Some f
         \<and> heap (((\<lambda>m. snd (getOrCreateFetcher ref m)) ^^ i) n) = heap n"
proof (induction i)
  case 0
  then show ?case using assms by simp
next
  case (Suc i)
  then show ?case
    by (simp add: getOrCreateFetcher_present)
qed

lemma lru_Add_evicts:
  assumes full: "int (length (evictList c)) = cache_size c"
    and ne: "evictList c \<noteq> []"
    and dist: "distinct (map fst (evictList c))"
    and new: "lru_Peek k c = None"
  shows "snd (lru_Add k v c) = c\<lparr>evictList := (k, v) # butlast (evictList c)\<rparr>"
    and "lru_Peek (fst (last (evictList c))) (snd (lru_Add k v c)) = None"
proof -
  show eq: "snd (lru_Add k v c) = c\<lparr>evictList := (k, v) # butlast (evictList c)\<rparr>"
    using full ne new by (simp add: lru_Add_def lru_Peek_def Let_def)
  obtain xs x where xs: "evictList c = xs @ [x]"
    using ne by (metis append_butlast_last_id)
  have a: "fst x \<notin> fst ` set xs"
    using dist xs by simp
  have "map_of (evictList c) (fst x) \<noteq> None"
    using xs by (simp add: map_of_eq_None_iff)
  then have b: "fst x \<noteq> k"
    using new by (auto simp: lru_Peek_def)
  have "map_of xs (fst x) = None"
    using a by (simp add: map_of_eq_None_iff)
  then show "lru_Peek (fst (last (evictList c))) (snd (lru_Add k v c)) = None"
    using b by (simp add: eq lru_Peek_def xs)
qed

subsection \<open>The invariants of the cache and of the keys\<close>

lemma distinct_moveToFront:
  "distinct (map fst es) \<Longrightarrow> distinct (map fst (moveToFront k v es))"
  by (auto simp: moveToFront_def distinct_map_filter)

lemma length_moveToFront:
  "map_of es k = Some w \<Longrightarrow> length (moveToFront k v es) \<le> length es"
proof -
  assume "map_of es k = Some w"
  then have "(k, w) \<in> set es"
    by (rule map_of_SomeD)
  then have "length (filter (\<lambda>e. fst e \<noteq> k) es) < length es"
    by (intro length_filter_less [of "(k, w)"]) auto
  then show ?thesis
    by (simp add: moveToFront_def)
qed

lemma lru_inv_New: "lru_New sz = Inr c \<Longrightarrow> lru_inv c"
  by (auto simp: lru_New_def lru_inv_def split: if_splits)

lemma lru_inv_Get: "lru_inv c \<Longrightarrow> lru_inv (snd (lru_Get k c))"
proof (cases "map_of (evictList c) k")
  case None
  assume "lru_inv c"
  then show ?thesis
    using None by (simp add: lru_Get_def)
next
  case (Some w)
  assume a: "lru_inv c"
  have "int (length (moveToFront k w (evictList c))) \<le> cache_size c"
    using a length_moveToFront [OF Some, of w] unfolding lru_inv_def by linarith
  with a show ?thesis
    using Some by (simp add: lru_inv_def lru_Get_def distinct_moveToFront)
qed

lemma lru_inv_Remove: "lru_inv c \<Longrightarrow> lru_inv (lru_Remove k c)"
proof -
  assume a: "lru_inv c"
  have "int (length (filter (\<lambda>e. fst e \<noteq> k) (evictList c))) \<le> cache_size c"
    using a length_filter_le [of "\<lambda>e. fst e \<noteq> k" "evictList c"]
    unfolding lru_inv_def by linarith
  with a show ?thesis
    by (simp add: lru_inv_def lru_Remove_def distinct_map_filter)
qed

lemma lru_inv_Add: "lru_inv c \<Longrightarrow> lru_inv (snd (lru_Add k v c))"
proof (cases "map_of (evictList c) k")
  case None
  assume a: "lru_inv c"
  have k: "k \<notin> fst ` set (evictList c)"
    using None by (simp add: map_of_eq_None_iff)
  have d: "distinct (map fst ((k, v) # evictList c))"
    using a k by (simp add: lru_inv_def)
  have "distinct (map fst (butlast ((k, v) # evictList c)))"
    using d by (simp only: map_butlast distinct_butlast)
  then show ?thesis
    using a None d by (auto simp: lru_inv_def lru_Add_def Let_def)
next
  case (Some w)
  assume a: "lru_inv c"
  have "int (length (moveToFront k v (evictList c))) \<le> cache_size c"
    using a length_moveToFront [OF Some, of v] unfolding lru_inv_def by linarith
  with a show ?thesis
    using Some by (simp add: lru_inv_def lru_Add_def distinct_moveToFront)
qed

lemma hexKeyed_empty: "hexKeyed (emptyNetStore st cap)"
  by (simp add: hexKeyed_def emptyNetStore_def)

lemma set_moveToFront: "set (moveToFront k v es) \<subseteq> insert (k, v) (set es)"
  by (auto simp: moveToFront_def)

lemma keys_lru_Get:
  "e \<in> set (evictList (snd (lru_Get k c))) \<Longrightarrow> fst e \<in> fst ` set (evictList c)"
  by (auto simp: lru_Get_def moveToFront_def split: option.splits dest: map_of_SomeD)

lemma keys_lru_Add:
  "e \<in> set (evictList (snd (lru_Add k v c))) \<Longrightarrow> fst e = k \<or> fst e \<in> fst ` set (evictList c)"
  by (auto simp: lru_Add_def moveToFront_def Let_def split: option.splits if_splits
      dest: in_set_butlastD)

lemma keys_lru_Remove:
  "e \<in> set (evictList (lru_Remove k c)) \<Longrightarrow> e \<in> set (evictList c)"
  by (simp add: lru_Remove_def)

lemma hexKeyed_getOrCreateFetcher:
  assumes "hexKeyed n"
  shows "hexKeyed (snd (getOrCreateFetcher ref n))"
proof (cases "lru_Peek (StringKey (hex_EncodeToString ref)) (fetchers n)")
  case None
  show ?thesis
    using assms
    by (auto simp: hexKeyed_def getOrCreateFetcher_miss [OF None] newFetcher_def
        dest!: keys_lru_Add)
next
  case (Some f)
  show ?thesis
    using assms
    by (auto simp: hexKeyed_def getOrCreateFetcher_hit [OF Some] dest!: keys_lru_Get)
qed

lemma hexKeyed_store:
  "hexKeyed (n\<lparr>store := s\<rparr>) = hexKeyed n"
  by (simp add: hexKeyed_def)

lemma hexKeyed_get:
  assumes "hexKeyed n"
  shows "hexKeyed (snd (get ctx ref n))"
proof -
  have "hexKeyed (snd (store_Get ctx ref n))"
    using assms by (simp add: hexKeyed_def store_Get_simps)
  then have "hexKeyed (snd (getOrCreateFetcher ref (snd (store_Get ctx ref n))))"
    by (rule hexKeyed_getOrCreateFetcher)
  with \<open>hexKeyed (snd (store_Get ctx ref n))\<close> show ?thesis
    by (cases "store_Get ctx ref n") (auto simp: get_def split: prod.splits)
qed

lemma Put_cases:
  "Put ch n =
     (case fst (cs_Put (store n) ch (cs_state (store n))) of
        (w, Some e) \<Rightarrow> (Returns (None, Some e), snd (store_Put ch n))
      | (None, None) \<Rightarrow> (Returns (None, None), snd (store_Put ch n))
      | (Some w, None) \<Rightarrow>
          (Panics ''runtime error: hash of unhashable type storage.Address'', snd (store_Put ch n)))"
proof -
  have "fst (store_Put ch n) = fst (cs_Put (store n) ch (cs_state (store n)))"
    by (simp add: store_Put_simps)
  then show ?thesis
    by (cases "store_Put ch n")
      (auto simp: Put_def lru_Get_any_def split: prod.splits option.splits)
qed

lemma Put_never_delivers:
  "heap (snd (Put ch n)) = heap n"
  "fetchers (snd (Put ch n)) = fetchers n"
  by (simp_all add: Put_cases store_Put_simps split: prod.splits option.splits)

lemma Put_new_write_panics:
  assumes "fst (cs_Put (store n) ch (cs_state (store n))) = (Some w, None)"
  shows "fst (Put ch n) = Panics ''runtime error: hash of unhashable type storage.Address''"
  by (simp add: Put_cases assms)

lemma hexKeyed_Put:
  assumes "hexKeyed n"
  shows "hexKeyed (snd (Put ch n))"
  using assms by (simp add: hexKeyed_def Put_never_delivers)

lemma hexKeyed_Fetch_enter:
  assumes "hexKeyed n"
  shows "hexKeyed (Fetch_enter rctx p n)"
proof (cases "heap_get (heap n) p")
  case None
  then show ?thesis
    using assms by (simp add: Fetch_enter_def heap_upd_def)
next
  case (Some f)
  then have "f \<in> set (heap n)"
    by (auto simp: heap_get_Some)
  then show ?thesis
    using assms by (auto simp: hexKeyed_def Fetch_enter_Some [OF Some] dest!: set_update_subset_insert [THEN subsetD])
qed

lemma hexKeyed_Fetch_exit:
  assumes "hexKeyed n" and "Fetch_exit rctx sc p n = Some (r, n')"
  shows "hexKeyed n'"
proof -
  obtain f where f: "heap_get (heap n) p = Some f"
    using assms(2) by (auto simp: Fetch_exit_def split: option.splits)
  then have "f \<in> set (heap n)"
    by (auto simp: heap_get_Some)
  moreover have "n' = Fetch_deferred rctx p n"
    using assms(2) by (simp add: Fetch_exit_Some [OF f] split: option.splits)
  ultimately show ?thesis
    using assms(1)
    by (auto simp: hexKeyed_def Fetch_deferred_Some [OF f] split: if_splits
        dest!: set_update_subset_insert [THEN subsetD] keys_lru_Remove)
qed

lemma lru_inv_getOrCreateFetcher:
  assumes "lru_inv (fetchers n)"
  shows "lru_inv (fetchers (snd (getOrCreateFetcher ref n)))"
proof (cases "lru_Peek (StringKey (hex_EncodeToString ref)) (fetchers n)")
  case None
  show ?thesis
    using assms by (simp add: getOrCreateFetcher_miss [OF None] lru_inv_Add)
next
  case (Some f)
  show ?thesis
    using assms by (simp add: getOrCreateFetcher_hit [OF Some] lru_inv_Get)
qed

lemma lru_inv_get:
  assumes "lru_inv (fetchers n)"
  shows "lru_inv (fetchers (snd (get ctx ref n)))"
proof -
  have a: "lru_inv (fetchers (snd (store_Get ctx ref n)))"
    using assms by (simp add: store_Get_simps)
  then have "lru_inv (fetchers (snd (getOrCreateFetcher ref (snd (store_Get ctx ref n)))))"
    by (rule lru_inv_getOrCreateFetcher)
  with a show ?thesis
    by (cases "store_Get ctx ref n") (auto simp: get_def split: prod.splits)
qed

lemma lru_inv_Fetch_enter:
  "lru_inv (fetchers n) \<Longrightarrow> lru_inv (fetchers (Fetch_enter rctx p n))"
  by (simp add: Fetch_enter_def heap_upd_def split: option.splits)

lemma lru_inv_Fetch_exit:
  assumes "lru_inv (fetchers n)" and "Fetch_exit rctx sc p n = Some (r, n')"
  shows "lru_inv (fetchers n')"
proof -
  obtain f where f: "heap_get (heap n) p = Some f"
    using assms(2) by (auto simp: Fetch_exit_def split: option.splits)
  have "n' = Fetch_deferred rctx p n"
    using assms(2) by (simp add: Fetch_exit_Some [OF f] split: option.splits)
  then show ?thesis
    using assms(1) by (simp add: Fetch_deferred_Some [OF f] lru_inv_Remove)
qed

lemma lru_inv_NewNetStore:
  "NewNetStore st cap = Inr n \<Longrightarrow> lru_inv (fetchers n) \<and> hexKeyed n"
  by (auto simp: NewNetStore_def lru_New_def lru_inv_def hexKeyed_def split: if_splits)

subsection \<open>The hex keys of different addresses differ\<close>

lemma hextable_distinct: "distinct hextable" "length hextable = 16"
  by (simp_all add: hextable_def)

lemma unat_hi: "unat (drop_bit 4 (v :: 8 word)) = unat v div 16"
  by (simp add: drop_bit_eq_div unat_div_distrib)

lemma unat_lo: "unat ((v :: 8 word) AND 0x0f) = unat v mod 16"
proof -
  have "(0x0f :: 8 word) = mask 4"
    by (simp add: mask_eq_exp_minus_1)
  then have "v AND 0x0f = take_bit 4 v"
    by (simp add: take_bit_eq_mask)
  then show ?thesis
    by (simp add: take_bit_eq_mod unat_mod_distrib)
qed

lemma hex_byte_inj:
  fixes v w :: "8 word"
  assumes "hextable ! unat (drop_bit 4 v) = hextable ! unat (drop_bit 4 w)"
    and "hextable ! unat (v AND 0x0f) = hextable ! unat (w AND 0x0f)"
  shows "v = w"
proof -
  have b: "unat v < 256" "unat w < 256"
    using unsigned_less [of v] unsigned_less [of w] by simp_all
  then have "unat v div 16 < 16" "unat w div 16 < 16"
    by simp_all
  then have h: "unat v div 16 = unat w div 16"
    using assms(1) by (simp add: unat_hi nth_eq_iff_index_eq hextable_distinct)
  have "unat v mod 16 < 16" "unat w mod 16 < 16"
    by simp_all
  then have l: "unat v mod 16 = unat w mod 16"
    using assms(2) by (simp add: unat_lo nth_eq_iff_index_eq hextable_distinct)
  have "unat v = 16 * (unat v div 16) + unat v mod 16"
    by simp
  also have "\<dots> = 16 * (unat w div 16) + unat w mod 16"
    by (simp only: h l)
  also have "\<dots> = unat w"
    by simp
  finally show ?thesis
    by (simp add: word_unat_eq_iff)
qed

lemma hex_EncodeToString_inj:
  "hex_EncodeToString xs = hex_EncodeToString ys \<Longrightarrow> xs = ys"
proof (induction xs arbitrary: ys)
  case Nil
  then show ?case by (cases ys) simp_all
next
  case (Cons v xs)
  then show ?case
    by (cases ys) (auto dest: hex_byte_inj)
qed

subsection \<open>Filling the cache\<close>

text \<open>
  For every capacity: on an empty store, lookups of as many different addresses as the
  cache has room for leave the cache full, with the fetcher of the first address as the
  least recently used entry; the caller of the first lookup may then enter \<^verbatim>\<open>Fetch\<close>.
\<close>

lemma lookups_snoc: "lookups ctx (as @ [a]) n = snd (get ctx a (lookups ctx as n))"
  by (simp add: lookups_def)

lemma get_empty_mapStore:
  assumes "store n = mapStore []"
  shows "get ctx a n = ((None, Some (fst (getOrCreateFetcher a n)), None), snd (getOrCreateFetcher a n))"
proof -
  have m: "fst (cs_Get (store n) ctx a (cs_state (store n))) = (None, Some ''chunk not found'')"
    by (simp add: assms mapStore_def mapStore_Get_def)
  have "snd (store_Get ctx a n) = n"
    using assms by (simp add: store_Get_def mapStore_def mapStore_Get_def)
  with get_miss [OF m] show ?thesis
    by simp
qed

lemma lookups_fill:
  assumes "distinct as" and "int (length as) \<le> cap"
  shows "evictList (fetchers (lookups ctx as (emptyNetStore (mapStore []) cap)))
           = rev (zip (map (\<lambda>a. StringKey (hex_EncodeToString a)) as) [0..<length as])
       \<and> heap (lookups ctx as (emptyNetStore (mapStore []) cap))
           = map (\<lambda>a. newFetcher a (StringKey (hex_EncodeToString a))) as
       \<and> cache_size (fetchers (lookups ctx as (emptyNetStore (mapStore []) cap))) = cap
       \<and> store (lookups ctx as (emptyNetStore (mapStore []) cap)) = mapStore []"
  using assms
proof (induction as rule: rev_induct)
  case Nil
  then show ?case
    by (simp add: lookups_def emptyNetStore_def)
next
  case (snoc a as)
  define n where "n = lookups ctx as (emptyNetStore (mapStore []) cap)"
  have ih: "evictList (fetchers n)
              = rev (zip (map (\<lambda>a. StringKey (hex_EncodeToString a)) as) [0..<length as])"
      "heap n = map (\<lambda>a. newFetcher a (StringKey (hex_EncodeToString a))) as"
      "cache_size (fetchers n) = cap" "store n = mapStore []"
    using snoc by (simp_all add: n_def)
  have "hex_EncodeToString a \<notin> hex_EncodeToString ` set as"
    using snoc.prems(1) by (auto dest: hex_EncodeToString_inj)
  then have "StringKey (hex_EncodeToString a) \<notin> fst ` set (evictList (fetchers n))"
    by (auto simp: ih(1) dest!: set_zip_leftD)
  then have miss: "lru_Peek (StringKey (hex_EncodeToString a)) (fetchers n) = None"
    by (simp add: lru_Peek_def map_of_eq_None_iff)
  have len: "length (evictList (fetchers n)) = length as"
    by (simp add: ih(1))
  have add: "snd (lru_Add (StringKey (hex_EncodeToString a)) v (fetchers n))
               = (fetchers n)\<lparr>evictList := (StringKey (hex_EncodeToString a), v)
                                              # evictList (fetchers n)\<rparr>" for v
    using miss snoc.prems(2) by (simp add: lru_Add_def lru_Peek_def Let_def len ih(3))
  show ?case
    unfolding lookups_snoc n_def [symmetric]
    by (simp add: get_empty_mapStore [OF ih(4)] getOrCreateFetcher_miss [OF miss] add ih)
qed

lemma full_cache_reachable:
  assumes d: "distinct (b # a # as)" and c: "int (length (a # as)) = cap"
    and n: "n = Fetch_enter rctx 0 (lookups ctx (a # as) (emptyNetStore (mapStore []) cap))"
    and f: "f = (newFetcher a (StringKey (hex_EncodeToString a)))
                  \<lparr>requestCnt := 1,
                   peers := (case ctx_peer rctx of None \<Rightarrow> {} | Some pr \<Rightarrow> {pr}),
                   fetchCalls := [rctx]\<rparr>"
  shows "NewNetStore (mapStore []) cap = Inr (emptyNetStore (mapStore []) cap)"
    and "int (length (evictList (fetchers n))) = cache_size (fetchers n)"
    and "evictList (fetchers n) \<noteq> []"
    and "distinct (map fst (evictList (fetchers n)))"
    and "last (evictList (fetchers n)) = (StringKey (hex_EncodeToString (addr f)), 0)"
    and "heap_get (heap n) 0 = Some f"
    and "lru_Peek (StringKey (hex_EncodeToString b)) (fetchers n) = None"
proof -
  define m where "m = lookups ctx (a # as) (emptyNetStore (mapStore []) cap)"
  have da: "distinct (a # as)" and le: "int (length (a # as)) \<le> cap"
    using d c by simp_all
  note fill = lookups_fill [OF da le, of ctx, folded m_def]
  have ev: "evictList (fetchers m)
              = rev (zip (map (\<lambda>a. StringKey (hex_EncodeToString a)) (a # as)) [0..<length (a # as)])"
    and hp: "heap m = map (\<lambda>a. newFetcher a (StringKey (hex_EncodeToString a))) (a # as)"
    and sz: "cache_size (fetchers m) = cap"
    using fill by simp_all
  have h0: "heap_get (heap m) 0 = Some (newFetcher a (StringKey (hex_EncodeToString a)))"
    by (simp add: hp heap_get_def)
  have nm: "n = m\<lparr>heap := (heap m)[0 := f]\<rparr>"
    unfolding n m_def [symmetric]
    by (simp add: Fetch_enter_Some [OF h0] f newFetcher_def split: option.splits)
  show "NewNetStore (mapStore []) cap = Inr (emptyNetStore (mapStore []) cap)"
    using c by (simp add: NewNetStore_empty)
  show "int (length (evictList (fetchers n))) = cache_size (fetchers n)"
    using c by (simp add: nm ev sz)
  show "evictList (fetchers n) \<noteq> []"
    unfolding nm by (simp add: ev upt_conv_Cons del: upt_Suc)
  have inj: "inj_on (\<lambda>a. StringKey (hex_EncodeToString a)) (set (a # as))"
    by (auto simp: inj_on_def dest: hex_EncodeToString_inj)
  have z: "map fst (zip (map (\<lambda>a. StringKey (hex_EncodeToString a)) (a # as)) [0..<length (a # as)])
          = map (\<lambda>a. StringKey (hex_EncodeToString a)) (a # as)"
    by (rule map_fst_zip) simp
  have "fetchers n = fetchers m"
    by (simp add: nm)
  then have "map fst (evictList (fetchers n))
               = rev (map fst (zip (map (\<lambda>a. StringKey (hex_EncodeToString a)) (a # as))
                                  [0..<length (a # as)]))"
    by (simp only: ev rev_map)
  then have "map fst (evictList (fetchers n))
               = rev (map (\<lambda>a. StringKey (hex_EncodeToString a)) (a # as))"
    by (simp only: z)
  then show "distinct (map fst (evictList (fetchers n)))"
    using da inj by (simp only: distinct_rev distinct_map)
  have u: "[0..<Suc (length as)] = 0 # [Suc 0..<Suc (length as)]"
    by (simp add: upt_conv_Cons del: upt_Suc)
  have "evictList (fetchers n)
          = rev (zip (map (\<lambda>a. StringKey (hex_EncodeToString a)) as) [Suc 0..<Suc (length as)])
            @ [(StringKey (hex_EncodeToString a), 0)]"
    unfolding nm by (simp add: ev u del: upt_Suc)
  then show "last (evictList (fetchers n)) = (StringKey (hex_EncodeToString (addr f)), 0)"
    by (simp add: f newFetcher_def)
  show "heap_get (heap n) 0 = Some f"
    by (simp add: nm hp heap_get_def)
  have "hex_EncodeToString b \<notin> hex_EncodeToString ` set (a # as)"
    using d by (auto dest: hex_EncodeToString_inj)
  moreover have "fetchers n = fetchers m"
    by (simp add: nm)
  ultimately have "StringKey (hex_EncodeToString b) \<notin> fst ` set (evictList (fetchers n))"
    by (auto simp: ev dest!: set_zip_leftD)
  then show "lru_Peek (StringKey (hex_EncodeToString b)) (fetchers n) = None"
    by (simp add: lru_Peek_def map_of_eq_None_iff)
qed

subsection \<open>The entries of the cache name fetchers\<close>

lemma registered_empty: "registered (emptyNetStore st cap)"
  by (simp add: registered_def emptyNetStore_def)

lemma registered_NewNetStore: "NewNetStore st cap = Inr n \<Longrightarrow> registered n"
  by (auto simp: NewNetStore_def lru_New_def registered_def split: if_splits)

lemma registered_Peek:
  assumes "registered n" and "lru_Peek (StringKey (hex_EncodeToString ref)) (fetchers n) = Some g"
  shows "\<exists>f. heap_get (heap n) g = Some f \<and> addr f = ref"
proof -
  have "(StringKey (hex_EncodeToString ref), g) \<in> set (evictList (fetchers n))"
    using assms(2) by (simp add: lru_Peek_def map_of_SomeD)
  then obtain f where "heap_get (heap n) g = Some f"
      "StringKey (hex_EncodeToString ref) = StringKey (hex_EncodeToString (addr f))"
    using assms(1) by (fastforce simp: registered_def)
  then show ?thesis
    by (auto dest: hex_EncodeToString_inj)
qed

lemma entries_lru_Get:
  "e \<in> set (evictList (snd (lru_Get k c))) \<Longrightarrow> e \<in> set (evictList c)"
  by (auto simp: lru_Get_def moveToFront_def split: option.splits dest: map_of_SomeD)

lemma entries_lru_Add:
  "e \<in> set (evictList (snd (lru_Add k v c))) \<Longrightarrow> e = (k, v) \<or> e \<in> set (evictList c)"
  by (auto simp: lru_Add_def moveToFront_def Let_def split: option.splits if_splits
      dest: in_set_butlastD)

lemma heap_get_append:
  "heap_get h p = Some f \<Longrightarrow> heap_get (h @ hs) p = Some f"
  by (auto simp: heap_get_def nth_append split: if_splits)

lemma registered_getOrCreateFetcher:
  assumes "registered n"
  shows "registered (snd (getOrCreateFetcher ref n))"
proof (cases "lru_Peek (StringKey (hex_EncodeToString ref)) (fetchers n)")
  case None
  have new: "heap_get (heap n @ [newFetcher ref (StringKey (hex_EncodeToString ref))]) (length (heap n))
               = Some (newFetcher ref (StringKey (hex_EncodeToString ref)))"
    by (simp add: heap_get_def)
  show ?thesis
    unfolding registered_def
  proof
    fix e
    assume "e \<in> set (evictList (fetchers (snd (getOrCreateFetcher ref n))))"
    then have "e = (StringKey (hex_EncodeToString ref), length (heap n))
               \<or> e \<in> set (evictList (fetchers n))"
      by (auto simp: getOrCreateFetcher_miss [OF None] dest: entries_lru_Add)
    then show "\<exists>f. heap_get (heap (snd (getOrCreateFetcher ref n))) (snd e) = Some f
                  \<and> fst e = StringKey (hex_EncodeToString (addr f))"
    proof
      assume "e = (StringKey (hex_EncodeToString ref), length (heap n))"
      then show ?thesis
        using new by (simp add: getOrCreateFetcher_miss [OF None] newFetcher_def)
    next
      assume "e \<in> set (evictList (fetchers n))"
      then obtain f where "heap_get (heap n) (snd e) = Some f"
          "fst e = StringKey (hex_EncodeToString (addr f))"
        using assms by (auto simp: registered_def)
      then show ?thesis
        by (auto simp: getOrCreateFetcher_miss [OF None] dest: heap_get_append)
    qed
  qed
next
  case (Some g)
  show ?thesis
    using assms
    by (auto simp: registered_def getOrCreateFetcher_hit [OF Some] dest!: entries_lru_Get)
qed

lemma registered_get:
  assumes "registered n"
  shows "registered (snd (get ctx ref n))"
proof -
  have a: "registered (snd (store_Get ctx ref n))"
    using assms by (simp add: registered_def store_Get_simps)
  then have "registered (snd (getOrCreateFetcher ref (snd (store_Get ctx ref n))))"
    by (rule registered_getOrCreateFetcher)
  with a show ?thesis
    by (cases "store_Get ctx ref n") (auto simp: get_def split: prod.splits)
qed

lemma registered_Put:
  assumes "registered n"
  shows "registered (snd (Put ch n))"
  using assms by (simp add: registered_def Put_never_delivers)

lemma registered_update:
  assumes "registered n" and "heap_get (heap n) p = Some f" and "addr g = addr f"
    and "set (evictList c) \<subseteq> set (evictList (fetchers n))"
  shows "registered (n\<lparr>fetchers := c, heap := (heap n)[p := g]\<rparr>)"
  unfolding registered_def
proof
  fix e
  assume "e \<in> set (evictList (fetchers (n\<lparr>fetchers := c, heap := (heap n)[p := g]\<rparr>)))"
  then have "e \<in> set (evictList (fetchers n))"
    using assms(4) by auto
  then obtain f' where f': "heap_get (heap n) (snd e) = Some f'"
      "fst e = StringKey (hex_EncodeToString (addr f'))"
    using assms(1) by (auto simp: registered_def)
  show "\<exists>f. heap_get (heap (n\<lparr>fetchers := c, heap := (heap n)[p := g]\<rparr>)) (snd e) = Some f
              \<and> fst e = StringKey (hex_EncodeToString (addr f))"
  proof (cases "snd e = p")
    case True
    then have "f' = f"
      using f'(1) assms(2) by simp
    then show ?thesis
      using True f'(2) assms(2,3) by (simp add: heap_get_update)
  next
    case False
    then show ?thesis
      using f' assms(2) by (simp add: heap_get_update)
  qed
qed

lemma registered_Fetch_enter:
  assumes "registered n"
  shows "registered (Fetch_enter rctx p n)"
proof (cases "heap_get (heap n) p")
  case None
  then show ?thesis
    using assms by (simp add: Fetch_enter_def heap_upd_def)
next
  case (Some f)
  have "registered (n\<lparr>fetchers := fetchers n, heap := (heap n)[p := f\<lparr>requestCnt := requestCnt f + 1,
                peers := (case ctx_peer rctx of None \<Rightarrow> peers f | Some pr \<Rightarrow> insert pr (peers f)),
                fetchCalls := fetchCalls f @ [rctx]\<rparr>]\<rparr>)"
    by (rule registered_update [OF assms Some]) simp_all
  then show ?thesis
    by (simp add: Fetch_enter_Some [OF Some])
qed

lemma registered_Fetch_exit:
  assumes "registered n" and "Fetch_exit rctx sc p n = Some (r, n')"
  shows "registered n'"
proof -
  obtain f where f: "heap_get (heap n) p = Some f"
    using assms(2) by (auto simp: Fetch_exit_def split: option.splits)
  have n': "n' = Fetch_deferred rctx p n"
    using assms(2) by (simp add: Fetch_exit_Some [OF f] split: option.splits)
  show ?thesis
  proof (cases "requestCnt f - 1 = 0")
    case True
    have "registered (n\<lparr>fetchers := lru_Remove (cancel f) (fetchers n),
                   heap := (heap n)[p := f\<lparr>peers := (case ctx_peer rctx of None \<Rightarrow> peers f
                                                    | Some pr \<Rightarrow> peers f - {pr}),
                                         requestCnt := requestCnt f - 1,
                                         ctxCancelled := True,
                                         cancelCalls := Suc (cancelCalls f)\<rparr>]\<rparr>)"
      by (rule registered_update [OF assms(1) f]) (auto simp: lru_Remove_def)
    then show ?thesis
      using True by (simp add: n' Fetch_deferred_Some [OF f])
  next
    case False
    have "registered (n\<lparr>fetchers := fetchers n,
                   heap := (heap n)[p := f\<lparr>peers := (case ctx_peer rctx of None \<Rightarrow> peers f
                                                    | Some pr \<Rightarrow> peers f - {pr}),
                                         requestCnt := requestCnt f - 1\<rparr>]\<rparr>)"
      by (rule registered_update [OF assms(1) f]) simp_all
    then show ?thesis
      using False by (simp add: n' Fetch_deferred_Some [OF f])
  qed
qed

subsection \<open>The concrete states\<close>

lemma hex_addrX: "hex_EncodeToString addrX = ''01''"
  by (simp add: addrX_def hextable_def)

lemma hex_addrY: "hex_EncodeToString addrY = ''ab''"
  by (simp add: addrY_def hextable_def)

lemma hex_addrZ: "hex_EncodeToString addrZ = ''ff''"
  by (simp add: addrZ_def hextable_def)

lemma waitingX_eq:
  "waitingX =
     \<lparr>store = mapStore [],
      fetchers = \<lparr>cache_size = 2, evictList = [(StringKey ''01'', 0)]\<rparr>,
      heap = [\<lparr>addr = addrX, chunk = None, deliveredC = False, fetchCalls = [live],
               cancel = StringKey ''01'', cancelCalls = 0, ctxCancelled = False,
               peers = {''peer1''}, requestCnt = 1\<rparr>]\<rparr>"
  by (simp add: waitingX_def netstore0_def emptyNetStore_def get_def store_Get_def mapStore_def
      mapStore_Get_def getOrCreateFetcher_def lru_Get_def lru_Add_def hex_addrX Let_def
      Fetch_enter_def heap_upd_def heap_get_def newFetcher_def live_def)

lemma Put_waitingX:
  "Put chunkX waitingX =
     (Panics ''runtime error: hash of unhashable type storage.Address'',
      \<lparr>store = mapStore [chunkX],
       fetchers = \<lparr>cache_size = 2, evictList = [(StringKey ''01'', 0)]\<rparr>,
       heap = [\<lparr>addr = addrX, chunk = None, deliveredC = False, fetchCalls = [live],
                cancel = StringKey ''01'', cancelCalls = 0, ctxCancelled = False,
                peers = {''peer1''}, requestCnt = 1\<rparr>]\<rparr>)"
  by (simp add: waitingX_eq Put_def store_Put_def mapStore_def mapStore_Put_def lru_Get_any_def
      chunkX_def)

lemma presentX_eq:
  "presentX =
     \<lparr>store = mapStore [chunkX],
      fetchers = \<lparr>cache_size = 2, evictList = [(StringKey ''01'', 0)]\<rparr>,
      heap = [\<lparr>addr = addrX, chunk = None, deliveredC = False, fetchCalls = [live],
               cancel = StringKey ''01'', cancelCalls = 0, ctxCancelled = False,
               peers = {''peer1''}, requestCnt = 1\<rparr>]\<rparr>"
  by (simp add: presentX_def waitingX_eq)

lemma Put_presentX:
  "Put chunkX presentX = (Returns (None, None), presentX)"
  by (simp add: presentX_eq Put_def store_Put_def mapStore_def mapStore_Put_def chunkX_def)

lemma heap_waitingX: "heap_get (heap waitingX) 0 = Some fetcherX"
  by (simp add: waitingX_eq heap_get_def fetcherX_def)

lemma exit_waitingX:
  "Fetch_exit cancelled ctx_Done 0 waitingX =
     Some ((None, Some ''context canceled''),
           \<lparr>store = mapStore [],
            fetchers = \<lparr>cache_size = 2, evictList = []\<rparr>,
            heap = [fetcherX\<lparr>peers := {}, requestCnt := 0, ctxCancelled := True, cancelCalls := 1\<rparr>]\<rparr>)"
  by (simp add: Fetch_exit_def Fetch_deferred_def Fetch_select_def heap_upd_def heap_get_def
      destroy_def Let_def cancelled_def fetcherX_def waitingX_eq lru_Remove_def)

lemma deliver_at_waitingX:
  "deliver_at 0 chunkX waitingX =
     (None, waitingX\<lparr>heap := [fetcherX\<lparr>chunk := Some chunkX, deliveredC := True\<rparr>]\<rparr>)"
  by (simp add: deliver_at_def heap_get_def deliver_def Let_def fetcherX_def waitingX_eq)

lemma heap_deliveredX:
  "heap_get (heap deliveredX) 0 = Some (fetcherX\<lparr>chunk := Some chunkX, deliveredC := True\<rparr>)"
  by (simp add: deliveredX_def deliver_at_waitingX heap_get_def)

lemma fullXY_eq:
  "fullXY =
     \<lparr>store = mapStore [],
      fetchers = \<lparr>cache_size = 2, evictList = [(StringKey ''ab'', 1), (StringKey ''01'', 0)]\<rparr>,
      heap = [fetcherX, newFetcher addrY (StringKey ''ab'')]\<rparr>"
  by (simp add: fullXY_def waitingX_eq get_def store_Get_def mapStore_def mapStore_Get_def
      getOrCreateFetcher_def lru_Get_def lru_Add_def hex_addrY Let_def fetcherX_def)

lemma twoWaiting:
  "Fetch_enter live 0 waitingX =
     waitingX\<lparr>heap := [fetcherX\<lparr>requestCnt := 2, fetchCalls := [live, live]\<rparr>]\<rparr>"
  by (simp add: Fetch_enter_def heap_upd_def heap_get_def waitingX_eq fetcherX_def live_def)

lemma exit_twoWaiting:
  "Fetch_exit cancelled ctx_Done 0 (Fetch_enter live 0 waitingX) =
     Some ((None, Some ''context canceled''),
           waitingX\<lparr>heap := [fetcherX\<lparr>requestCnt := 1, fetchCalls := [live, live], peers := {}\<rparr>]\<rparr>)"
  unfolding twoWaiting
  by (simp add: Fetch_exit_def Fetch_deferred_def Fetch_select_def heap_upd_def heap_get_def
      destroy_def Let_def cancelled_def fetcherX_def waitingX_eq)

subsection \<open>A second delivery\<close>

text \<open>
  C8. On a fetcher that \<open>deliver\<close> has been called on once, a second call of \<open>deliver\<close>
  is not a silent no-op: it panics with the run-time error of closing a closed channel,
  after it has overwritten the chunk of the fetcher.
\<close>

theorem deliver_twice_panics:
  "deliver ch2 (snd (deliver ch1 f)) =
     (Some ''close of closed channel'', (snd (deliver ch1 f))\<lparr>chunk := Some ch2\<rparr>)"
  by (simp add: deliver_def Let_def)

theorem deliver_twice_panics_witness:
  "fst (deliver chunkX (newFetcher addrX (StringKey ''01''))) = None
   \<and> fst (deliver chunkX' (snd (deliver chunkX (newFetcher addrX (StringKey ''01'')))))
       = Some ''close of closed channel''
   \<and> chunk (snd (deliver chunkX' (snd (deliver chunkX (newFetcher addrX (StringKey ''01''))))))
       = Some chunkX'"
  using deliver_twice_panics [of chunkX' chunkX "newFetcher addrX (StringKey ''01'')"]
  by (simp add: deliver_def newFetcher_def Let_def)

subsection \<open>Reading a chunk that the local store holds\<close>

text \<open>
  C6. When the local store answers the lookup of an address with a chunk and a nil error,
  \<^verbatim>\<open>Get\<close> returns that chunk with a nil error from \<^verbatim>\<open>get\<close> itself (\<open>Inl\<close>: it does
  not go on into \<^verbatim>\<open>Fetch\<close>, so nothing blocks), the fetchers cache is as it was (no
  session is created) and every fetcher is as it was (no waiter is registered).
\<close>

theorem Get_local_hit:
  assumes "fst (cs_Get (store n) rctx ref (cs_state (store n))) = (c, None)"
  shows "fst (Get rctx ref n) = Inl (c, None)
         \<and> fetchers (snd (Get rctx ref n)) = fetchers n
         \<and> heap (snd (Get rctx ref n)) = heap n"
  by (simp add: Get_def get_hit [OF assms] store_Get_simps)

theorem Get_local_hit_witness:
  "fst (cs_Get (store netstoreY) live addrY (cs_state (store netstoreY))) = (Some chunkY, None)
   \<and> fst (Get live addrY netstoreY) = Inl (Some chunkY, None)
   \<and> fetchers (snd (Get live addrY netstoreY)) = fetchers netstoreY
   \<and> heap (snd (Get live addrY netstoreY)) = []"
proof -
  have h: "fst (cs_Get (store netstoreY) live addrY (cs_state (store netstoreY))) = (Some chunkY, None)"
    by (simp add: netstoreY_def emptyNetStore_def mapStore_def mapStore_Get_def chunkY_def)
  have "heap netstoreY = []"
    by (simp add: netstoreY_def emptyNetStore_def)
  with h Get_local_hit [OF h] show ?thesis
    by simp
qed

subsection \<open>An error of the local store's lookup\<close>

text \<open>
  C5, as the claim states it, fails. The lookup of the store fails with the error
  \<open>''leveldb: closed''\<close>; \<^verbatim>\<open>get\<close> returns a nil error, \<^verbatim>\<open>Get\<close> goes on into the
  \<^verbatim>\<open>Fetch\<close> of the new fetcher, and with a caller's context that has ended what
  \<^verbatim>\<open>Get\<close> returns is the context's error, not the store's.
\<close>

theorem get_store_error_not_surfaced:
  "fst (cs_Get brokenStore cancelled addrX ()) = (None, Some ''leveldb: closed'')
   \<and> snd (snd (fst (get cancelled addrX (emptyNetStore brokenStore 2)))) = None
   \<and> fst (Get cancelled addrX (emptyNetStore brokenStore 2)) = Inr 0
   \<and> map_option fst (Fetch_exit cancelled ctx_Done 0
        (Fetch_enter cancelled 0 (snd (Get cancelled addrX (emptyNetStore brokenStore 2)))))
       = Some (None, Some ''context canceled'')"
  by (simp add: emptyNetStore_def brokenStore_def get_def Get_def store_Get_def
      getOrCreateFetcher_def lru_Get_def lru_Add_def hex_addrX Let_def
      Fetch_enter_def Fetch_exit_def Fetch_select_def heap_upd_def heap_get_def newFetcher_def
      cancelled_def)

text \<open>
  C5, amended. For every error of the local store's lookup, \<^verbatim>\<open>get\<close> treats the error as
  a miss and does not return it: it returns a nil chunk, a nil error and the \<^verbatim>\<open>Fetch\<close> of
  the fetcher for the address. When the cache holds a fetcher under the hex key of the
  address, that is the fetcher, and nothing is allocated; otherwise a new fetcher for the
  address is allocated at the end of the heap, and that is the fetcher. Where every entry of
  the cache names a fetcher under the hex key of its address (\<open>registered\<close>), the fetcher is
  in the heap afterwards and its address is the address asked for. Afterwards the cache holds
  it under that key, and \<^verbatim>\<open>Get\<close> goes on into its \<^verbatim>\<open>Fetch\<close>. The store is called
  once: its state afterwards is the state after that one lookup (no retry).
\<close>

theorem get_store_error_is_miss:
  assumes "fst (cs_Get (store n) ctx ref (cs_state (store n))) = (c, Some e)"
    and "f = (case lru_Peek (StringKey (hex_EncodeToString ref)) (fetchers n) of
                Some g \<Rightarrow> g
              | None \<Rightarrow> length (heap n))"
  shows "fst (get ctx ref n) = (None, Some f, None)
         \<and> fst (Get ctx ref n) = Inr f
         \<and> heap (snd (get ctx ref n))
             = (case lru_Peek (StringKey (hex_EncodeToString ref)) (fetchers n) of
                  Some g \<Rightarrow> heap n
                | None \<Rightarrow> heap n @ [newFetcher ref (StringKey (hex_EncodeToString ref))])
         \<and> (registered n \<longrightarrow>
              (\<exists>fr. heap_get (heap (snd (get ctx ref n))) f = Some fr \<and> addr fr = ref))
         \<and> (0 < cache_size (fetchers n) \<longrightarrow>
              lru_Peek (StringKey (hex_EncodeToString ref)) (fetchers (snd (get ctx ref n)))
                = Some f)
         \<and> cs_state (store (snd (get ctx ref n)))
             = snd (cs_Get (store n) ctx ref (cs_state (store n)))"
proof -
  define m where "m = snd (store_Get ctx ref n)"
  have m: "fetchers m = fetchers n" "heap m = heap n"
    by (simp_all add: m_def store_Get_simps)
  have g: "get ctx ref n = ((None, Some (fst (getOrCreateFetcher ref m)), None),
                            snd (getOrCreateFetcher ref m))"
    unfolding m_def by (rule get_miss [OF assms(1)])
  have f: "fst (getOrCreateFetcher ref m) = f"
    by (simp add: getOrCreateFetcher_fst m assms(2) split: option.splits)
  have h: "heap (snd (getOrCreateFetcher ref m))
             = (case lru_Peek (StringKey (hex_EncodeToString ref)) (fetchers n) of
                  Some g \<Rightarrow> heap n
                | None \<Rightarrow> heap n @ [newFetcher ref (StringKey (hex_EncodeToString ref))])"
  proof (cases "lru_Peek (StringKey (hex_EncodeToString ref)) (fetchers n)")
    case None
    then show ?thesis
      using getOrCreateFetcher_miss [of ref m] by (simp add: m)
  next
    case (Some g)
    then show ?thesis
      using getOrCreateFetcher_hit [of ref m g] by (simp add: m)
  qed
  have a: "\<exists>fr. heap_get (heap (snd (getOrCreateFetcher ref m))) f = Some fr \<and> addr fr = ref"
    if r: "registered n"
  proof (cases "lru_Peek (StringKey (hex_EncodeToString ref)) (fetchers n)")
    case None
    then show ?thesis
      by (simp add: h assms(2) heap_get_def newFetcher_def)
  next
    case (Some g)
    then show ?thesis
      using registered_Peek [OF r Some] by (simp add: h assms(2))
  qed
  have k: "0 < cache_size (fetchers n) \<Longrightarrow>
          lru_Peek (StringKey (hex_EncodeToString ref))
            (fetchers (snd (getOrCreateFetcher ref m))) = Some f"
    using getOrCreateFetcher_registered [of m ref] by (simp add: m f)
  have s: "cs_state (store (snd (getOrCreateFetcher ref m)))
             = snd (cs_Get (store n) ctx ref (cs_state (store n)))"
    by (simp add: getOrCreateFetcher_store m_def store_Get_simps)
  show ?thesis
    using f h a k s by (simp add: Get_def g)
qed

theorem get_store_error_is_miss_witness:
  "fst (cs_Get (store (emptyNetStore brokenStore 2)) live addrX
          (cs_state (store (emptyNetStore brokenStore 2)))) = (None, Some ''leveldb: closed'')
   \<and> lru_Peek (StringKey (hex_EncodeToString addrX)) (fetchers (emptyNetStore brokenStore 2)) = None
   \<and> heap (emptyNetStore brokenStore 2) = []
   \<and> registered (emptyNetStore brokenStore 2)
   \<and> fst (get live addrX (emptyNetStore brokenStore 2)) = (None, Some 0, None)
   \<and> fst (Get live addrX (emptyNetStore brokenStore 2)) = Inr 0
   \<and> heap (snd (get live addrX (emptyNetStore brokenStore 2))) = [newFetcher addrX (StringKey ''01'')]
   \<and> map_option addr (heap_get (heap (snd (get live addrX (emptyNetStore brokenStore 2)))) 0)
       = Some addrX
   \<and> lru_Peek (StringKey ''01'') (fetchers (snd (get live addrX (emptyNetStore brokenStore 2)))) = Some 0
   \<and> fst (cs_Get (store waitingX) live addrX (cs_state (store waitingX)))
       = (None, Some ''chunk not found'')
   \<and> lru_Peek (StringKey (hex_EncodeToString addrX)) (fetchers waitingX) = Some 0
   \<and> registered waitingX
   \<and> fst (get live addrX waitingX) = (None, Some 0, None)
   \<and> heap (snd (get live addrX waitingX)) = heap waitingX
   \<and> map_option addr (heap_get (heap (snd (get live addrX waitingX))) 0) = Some addrX"
proof -
  have h: "fst (cs_Get (store (emptyNetStore brokenStore 2)) live addrX
                  (cs_state (store (emptyNetStore brokenStore 2)))) = (None, Some ''leveldb: closed'')"
    by (simp add: emptyNetStore_def brokenStore_def)
  have p: "lru_Peek (StringKey (hex_EncodeToString addrX)) (fetchers (emptyNetStore brokenStore 2)) = None"
    and l: "heap (emptyNetStore brokenStore 2) = []"
    and z: "(0::int) < cache_size (fetchers (emptyNetStore brokenStore 2))"
    by (simp_all add: lru_Peek_def emptyNetStore_def)
  have g: "0 = (case lru_Peek (StringKey (hex_EncodeToString addrX))
                       (fetchers (emptyNetStore brokenStore 2)) of
                  Some g \<Rightarrow> g
                | None \<Rightarrow> length (heap (emptyNetStore brokenStore 2)))"
    by (simp add: p l)
  have r: "registered (emptyNetStore brokenStore 2)"
    by (rule registered_empty)
  note t = get_store_error_is_miss [OF h g]
  have t1: "fst (get live addrX (emptyNetStore brokenStore 2)) = (None, Some 0, None)"
      "fst (Get live addrX (emptyNetStore brokenStore 2)) = Inr 0"
      "heap (snd (get live addrX (emptyNetStore brokenStore 2))) = [newFetcher addrX (StringKey ''01'')]"
      "lru_Peek (StringKey ''01'') (fetchers (snd (get live addrX (emptyNetStore brokenStore 2)))) = Some 0"
    using t p l z by (simp_all add: hex_addrX)
  from t r have "\<exists>fr. heap_get (heap (snd (get live addrX (emptyNetStore brokenStore 2)))) 0 = Some fr
                     \<and> addr fr = addrX"
    by blast
  then have t2: "map_option addr (heap_get (heap (snd (get live addrX (emptyNetStore brokenStore 2)))) 0)
                   = Some addrX"
    by auto
  have h': "fst (cs_Get (store waitingX) live addrX (cs_state (store waitingX)))
              = (None, Some ''chunk not found'')"
    by (simp add: waitingX_eq mapStore_def mapStore_Get_def)
  have p': "lru_Peek (StringKey (hex_EncodeToString addrX)) (fetchers waitingX) = Some 0"
    by (simp add: waitingX_eq lru_Peek_def hex_addrX)
  have g': "0 = (case lru_Peek (StringKey (hex_EncodeToString addrX)) (fetchers waitingX) of
                   Some g \<Rightarrow> g
                 | None \<Rightarrow> length (heap waitingX))"
    by (simp add: p')
  have r': "registered waitingX"
    by (simp add: registered_def waitingX_eq heap_get_def hex_addrX)
  note u = get_store_error_is_miss [OF h' g']
  have u1: "fst (get live addrX waitingX) = (None, Some 0, None)"
      "heap (snd (get live addrX waitingX)) = heap waitingX"
    using u p' by simp_all
  from u r' have "\<exists>fr. heap_get (heap (snd (get live addrX waitingX))) 0 = Some fr \<and> addr fr = addrX"
    by blast
  then have u2: "map_option addr (heap_get (heap (snd (get live addrX waitingX))) 0) = Some addrX"
    by auto
  from h p l r t1 t2 h' p' r' u1 u2 show ?thesis
    by (intro conjI)
qed

subsection \<open>Writing a chunk that the local store holds already\<close>

text \<open>
  C7, as the claim states it, fails. In \<open>presentX\<close> the cache holds a fetcher for the
  address of \<open>chunkX\<close>, with one reader waiting, and the store holds the chunk;
  \<^verbatim>\<open>Put\<close> of \<open>chunkX\<close> returns (nil, nil) and the fetcher is not notified: its channel
  is still open and its chunk still unset.
\<close>

theorem Put_already_present_skips_session:
  "lru_Peek (StringKey (hex_EncodeToString (Address chunkX))) (fetchers presentX) = Some 0
   \<and> map_option addr (heap_get (heap presentX) 0) = Some (Address chunkX)
   \<and> fst (cs_Put (store presentX) chunkX (cs_state (store presentX))) = (None, None)
   \<and> fst (Put chunkX presentX) = Returns (None, None)
   \<and> map_option deliveredC (heap_get (heap (snd (Put chunkX presentX))) 0) = Some False
   \<and> map_option chunk (heap_get (heap (snd (Put chunkX presentX))) 0) = Some None
   \<and> map_option requestCnt (heap_get (heap (snd (Put chunkX presentX))) 0) = Some 1
   \<and> Fetch_exit live delivered 0 (snd (Put chunkX presentX)) = None"
  unfolding Put_presentX
  by (simp add: presentX_eq mapStore_def mapStore_Put_def lru_Peek_def heap_get_def chunkX_def
      hex_addrX Fetch_exit_def Fetch_select_def)

text \<open>
  C7, amended. For every chunk whose write the local store reports as already present (nil
  wait, nil error), \<^verbatim>\<open>Put\<close> returns (nil, nil) and no session work occurs: the fetchers
  cache is not consulted and no fetcher changes, so a fetcher that exists for that address is
  not notified.
\<close>

theorem Put_already_present:
  assumes "fst (cs_Put (store n) ch (cs_state (store n))) = (None, None)"
  shows "fst (Put ch n) = Returns (None, None)
         \<and> fetchers (snd (Put ch n)) = fetchers n
         \<and> heap (snd (Put ch n)) = heap n"
proof -
  have "fst (store_Put ch n) = (None, None)"
    using assms by (simp add: store_Put_simps)
  then have "Put ch n = (Returns (None, None), snd (store_Put ch n))"
    by (cases "store_Put ch n") (simp add: Put_def)
  then show ?thesis
    by (simp add: store_Put_simps)
qed

theorem Put_already_present_witness:
  "fst (cs_Put (store presentX) chunkX (cs_state (store presentX))) = (None, None)
   \<and> fst (Put chunkX presentX) = Returns (None, None)
   \<and> fetchers (snd (Put chunkX presentX)) = fetchers presentX
   \<and> heap (snd (Put chunkX presentX)) = heap presentX"
proof -
  have h: "fst (cs_Put (store presentX) chunkX (cs_state (store presentX))) = (None, None)"
    by (simp add: presentX_eq mapStore_def mapStore_Put_def chunkX_def)
  with Put_already_present [OF h] show ?thesis
    by simp
qed

subsection \<open>Probing\<close>

text \<open>
  C9. \<^verbatim>\<open>Has\<close> returns nil exactly when the local store answers the lookup with a nil
  error. Otherwise it returns the \<^verbatim>\<open>Fetch\<close> of the very fetcher that \<^verbatim>\<open>Get\<close> would
  go on to wait on from the same state, and leaves the same state behind. It does not enter
  \<^verbatim>\<open>Fetch\<close> itself: every fetcher that existed is as it was, and a fetcher it has created
  has no request counted, no peer registered and no call of the remote fetch function.
\<close>

theorem Has_probe:
  "(fst (Has ctx ref n) = None
      \<longleftrightarrow> snd (fst (cs_Get (store n) ctx ref (cs_state (store n)))) = None)
   \<and> (\<forall>f. fst (Has ctx ref n) = Some f \<longrightarrow> Get ctx ref n = (Inr f, snd (Has ctx ref n)))
   \<and> (\<forall>p fr. heap_get (heap (snd (Has ctx ref n))) p = Some fr \<longrightarrow>
         heap_get (heap n) p = Some fr
         \<or> (heap_get (heap n) p = None \<and> requestCnt fr = 0 \<and> peers fr = {} \<and> fetchCalls fr = []))"
proof (cases "snd (fst (cs_Get (store n) ctx ref (cs_state (store n))))")
  case None
  then have h: "fst (cs_Get (store n) ctx ref (cs_state (store n)))
                  = (fst (fst (cs_Get (store n) ctx ref (cs_state (store n)))), None)"
    by (metis prod.collapse)
  show ?thesis
    using None by (simp add: Has_def Get_def get_hit [OF h] store_Get_simps)
next
  case (Some e)
  then have h: "fst (cs_Get (store n) ctx ref (cs_state (store n)))
                  = (fst (fst (cs_Get (store n) ctx ref (cs_state (store n)))), Some e)"
    by (metis prod.collapse)
  have "heap_get (heap (snd (getOrCreateFetcher ref (snd (store_Get ctx ref n))))) p = Some fr \<Longrightarrow>
         heap_get (heap n) p = Some fr
         \<or> (heap_get (heap n) p = None \<and> requestCnt fr = 0 \<and> peers fr = {} \<and> fetchCalls fr = [])" for p fr
    using getOrCreateFetcher_heap [of ref "snd (store_Get ctx ref n)"]
    by (auto simp: store_Get_simps heap_get_def nth_append newFetcher_def split: if_splits)
  then show ?thesis
    using Some by (simp add: Has_def Get_def get_miss [OF h])
qed

theorem Has_probe_witness:
  "fst (Has live addrY netstoreY) = None
   \<and> snd (fst (cs_Get (store netstoreY) live addrY (cs_state (store netstoreY)))) = None
   \<and> fst (Has live addrX netstore0) = Some 0
   \<and> Get live addrX netstore0 = (Inr 0, snd (Has live addrX netstore0))
   \<and> heap_get (heap (snd (Has live addrX netstore0))) 0
       = Some (newFetcher addrX (StringKey ''01''))
   \<and> heap_get (heap netstore0) 0 = None
   \<and> requestCnt (newFetcher addrX (StringKey ''01'')) = 0"
proof -
  have a: "snd (fst (cs_Get (store netstoreY) live addrY (cs_state (store netstoreY)))) = None"
    by (simp add: netstoreY_def emptyNetStore_def mapStore_def mapStore_Get_def chunkY_def)
  have b: "Has live addrX netstore0 =
             (Some 0, \<lparr>store = mapStore [],
                       fetchers = \<lparr>cache_size = 2, evictList = [(StringKey ''01'', 0)]\<rparr>,
                       heap = [newFetcher addrX (StringKey ''01'')]\<rparr>)"
    by (simp add: Has_def netstore0_def emptyNetStore_def get_def store_Get_def mapStore_def
        mapStore_Get_def getOrCreateFetcher_def lru_Get_def lru_Add_def hex_addrX Let_def)
  have c: "heap_get (heap netstore0) 0 = None"
    by (simp add: netstore0_def emptyNetStore_def heap_get_def)
  from a b c Has_probe [of live addrY netstoreY] Has_probe [of live addrX netstore0]
  show ?thesis
    by (simp add: heap_get_def newFetcher_def)
qed

subsection \<open>Writing a chunk that a reader waits for\<close>

text \<open>
  C1 fails on the code. In \<open>waitingX\<close> the cache holds, under the hex key of the address
  of \<open>chunkX\<close>, a fetcher for that address with one request waiting, and the store lacks
  the chunk. \<^verbatim>\<open>Put\<close> of \<open>chunkX\<close> is a new write: the store reports a wait function.
  \<^verbatim>\<open>Put\<close> then looks the cache up with the address itself as the key, a slice, and
  panics at that lookup: it returns nothing and delivers nothing. The channel of the fetcher
  is still open, its chunk is unset, and the request that waits with a live context cannot
  return.
\<close>

theorem Put_new_write_misses_session:
  "lru_Peek (StringKey (hex_EncodeToString (Address chunkX))) (fetchers waitingX) = Some 0
   \<and> map_option addr (heap_get (heap waitingX) 0) = Some (Address chunkX)
   \<and> map_option requestCnt (heap_get (heap waitingX) 0) = Some 1
   \<and> fst (cs_Put (store waitingX) chunkX (cs_state (store waitingX))) = (Some (WaitFunc 0), None)
   \<and> fst (Put chunkX waitingX)
       = Panics ''runtime error: hash of unhashable type storage.Address''
   \<and> map_option deliveredC (heap_get (heap (snd (Put chunkX waitingX))) 0) = Some False
   \<and> map_option chunk (heap_get (heap (snd (Put chunkX waitingX))) 0) = Some None
   \<and> Fetch_exit live delivered 0 (snd (Put chunkX waitingX)) = None
   \<and> Fetch_exit live ctx_Done 0 (snd (Put chunkX waitingX)) = None"
  unfolding Put_waitingX
  by (simp add: waitingX_eq lru_Peek_def heap_get_def chunkX_def hex_addrX
      mapStore_def mapStore_Put_def Fetch_exit_def Fetch_select_def live_def)

subsection \<open>The request count and the teardown\<close>

text \<open>
  C2. For every fetcher and every call of its \<^verbatim>\<open>Fetch\<close>: the entry adds one to
  \<open>requestCnt\<close>; every exit, through either case of the \<^verbatim>\<open>select\<close>, takes one off.
  Exactly when the decrement gives zero, \<open>cancel\<close> runs, once (\<open>cancelCalls\<close> grows by
  one): the context of the fetcher is cancelled and the cache has no entry under the key of
  the fetcher any more, its other entries being as they were. Otherwise \<open>cancel\<close> does not
  run: the cache and the context are as they were. After the teardown of a fetcher made by
  \<^verbatim>\<open>getOrCreateFetcher\<close> (its key is the hex string of its address), the next lookup of
  the same address that misses the local store makes a new fetcher at a new place of the
  heap, not the old one.
\<close>

theorem Fetch_count_and_teardown:
  assumes "heap_get (heap n) p = Some f"
  shows "(\<exists>f1. heap_get (heap (Fetch_enter rctx p n)) p = Some f1
              \<and> requestCnt f1 = requestCnt f + 1)
       \<and> (\<forall>sc r n'. Fetch_exit rctx sc p n = Some (r, n') \<longrightarrow>
            (\<exists>f'. heap_get (heap n') p = Some f'
               \<and> requestCnt f' = requestCnt f - 1
               \<and> (if requestCnt f - 1 = 0
                   then cancelCalls f' = cancelCalls f + 1
                      \<and> ctxCancelled f'
                      \<and> lru_Peek (cancel f) (fetchers n') = None
                      \<and> (\<forall>k. k \<noteq> cancel f \<longrightarrow> lru_Peek k (fetchers n') = lru_Peek k (fetchers n))
                      \<and> (cancel f = StringKey (hex_EncodeToString (addr f)) \<longrightarrow>
                           fst (getOrCreateFetcher (addr f) n') = length (heap n')
                         \<and> p < length (heap n')
                         \<and> heap (snd (getOrCreateFetcher (addr f) n'))
                             = heap n' @ [newFetcher (addr f) (cancel f)]
                         \<and> (\<forall>ctx c e.
                              fst (cs_Get (store n') ctx (addr f) (cs_state (store n'))) = (c, Some e)
                              \<longrightarrow> fst (get ctx (addr f) n') = (None, Some (length (heap n')), None)))
                   else cancelCalls f' = cancelCalls f
                      \<and> ctxCancelled f' = ctxCancelled f
                      \<and> fetchers n' = fetchers n)))"
proof (intro conjI allI impI)
  show "\<exists>f1. heap_get (heap (Fetch_enter rctx p n)) p = Some f1 \<and> requestCnt f1 = requestCnt f + 1"
    using assms by (simp add: Fetch_enter_Some heap_get_update)
next
  fix sc r n'
  assume ex: "Fetch_exit rctx sc p n = Some (r, n')"
  then have n': "n' = Fetch_deferred rctx p n"
    by (simp add: Fetch_exit_Some [OF assms] split: option.splits)
  have len: "p < length (heap n)"
    using assms by (simp add: heap_get_Some)
  show "\<exists>f'. heap_get (heap n') p = Some f'
               \<and> requestCnt f' = requestCnt f - 1
               \<and> (if requestCnt f - 1 = 0
                   then cancelCalls f' = cancelCalls f + 1
                      \<and> ctxCancelled f'
                      \<and> lru_Peek (cancel f) (fetchers n') = None
                      \<and> (\<forall>k. k \<noteq> cancel f \<longrightarrow> lru_Peek k (fetchers n') = lru_Peek k (fetchers n))
                      \<and> (cancel f = StringKey (hex_EncodeToString (addr f)) \<longrightarrow>
                           fst (getOrCreateFetcher (addr f) n') = length (heap n')
                         \<and> p < length (heap n')
                         \<and> heap (snd (getOrCreateFetcher (addr f) n'))
                             = heap n' @ [newFetcher (addr f) (cancel f)]
                         \<and> (\<forall>ctx c e.
                              fst (cs_Get (store n') ctx (addr f) (cs_state (store n'))) = (c, Some e)
                              \<longrightarrow> fst (get ctx (addr f) n') = (None, Some (length (heap n')), None)))
                   else cancelCalls f' = cancelCalls f
                      \<and> ctxCancelled f' = ctxCancelled f
                      \<and> fetchers n' = fetchers n)"
  proof (cases "requestCnt f - 1 = 0")
    case False
    then show ?thesis
      using assms by (simp add: n' Fetch_deferred_Some [OF assms] heap_get_update)
  next
    case True
    have peek: "lru_Peek (cancel f) (fetchers n') = None"
      using True by (simp add: n' Fetch_deferred_Some [OF assms] lru_Peek_Remove)
    have len': "length (heap n') = length (heap n)"
      using True by (simp add: n' Fetch_deferred_Some [OF assms])
    have fresh: "cancel f = StringKey (hex_EncodeToString (addr f)) \<Longrightarrow>
           getOrCreateFetcher (addr f) n' =
             (length (heap n'),
              n'\<lparr>fetchers := snd (lru_Add (cancel f) (length (heap n')) (fetchers n')),
                 heap := heap n' @ [newFetcher (addr f) (cancel f)]\<rparr>)"
      using peek getOrCreateFetcher_miss [of "addr f" n'] by simp
    have viaget: "fst (get ctx (addr f) n') = (None, Some (length (heap n')), None)"
      if k: "cancel f = StringKey (hex_EncodeToString (addr f))"
        and m: "fst (cs_Get (store n') ctx (addr f) (cs_state (store n'))) = (c, Some e)"
      for ctx c e
    proof -
      have "lru_Peek (StringKey (hex_EncodeToString (addr f)))
              (fetchers (snd (store_Get ctx (addr f) n'))) = None"
        using peek k by (simp add: store_Get_simps)
      then have "fst (getOrCreateFetcher (addr f) (snd (store_Get ctx (addr f) n')))
                   = length (heap n')"
        by (simp add: getOrCreateFetcher_miss store_Get_simps)
      then show ?thesis
        by (simp add: get_miss [OF m])
    qed
    show ?thesis
      using True assms len len' peek fresh viaget
      by (simp add: n' Fetch_deferred_Some [OF assms] heap_get_update lru_Peek_Remove)
  qed
qed

theorem Fetch_count_and_teardown_witness:
  "heap_get (heap waitingX) 0 = Some fetcherX
   \<and> requestCnt fetcherX = 1
   \<and> map_option requestCnt (heap_get (heap (Fetch_enter live 0 waitingX)) 0) = Some 2
   \<and> cancel fetcherX = StringKey (hex_EncodeToString (addr fetcherX))
   \<and> (\<exists>n'. Fetch_exit cancelled ctx_Done 0 waitingX = Some ((None, Some ''context canceled''), n')
        \<and> map_option requestCnt (heap_get (heap n') 0) = Some 0
        \<and> map_option cancelCalls (heap_get (heap n') 0) = Some 1
        \<and> map_option ctxCancelled (heap_get (heap n') 0) = Some True
        \<and> lru_Peek (StringKey ''01'') (fetchers n') = None
        \<and> fst (getOrCreateFetcher addrX n') = 1
        \<and> fst (cs_Get (store n') live addrX (cs_state (store n'))) = (None, Some ''chunk not found'')
        \<and> fst (get live addrX n') = (None, Some 1, None))
   \<and> heap_get (heap (Fetch_enter live 0 waitingX)) 0
       = Some (fetcherX\<lparr>requestCnt := 2, fetchCalls := [live, live]\<rparr>)
   \<and> (\<exists>n'. Fetch_exit cancelled ctx_Done 0 (Fetch_enter live 0 waitingX)
              = Some ((None, Some ''context canceled''), n')
        \<and> map_option requestCnt (heap_get (heap n') 0) = Some 1
        \<and> map_option cancelCalls (heap_get (heap n') 0) = Some 0
        \<and> map_option ctxCancelled (heap_get (heap n') 0) = Some False
        \<and> lru_Peek (StringKey ''01'') (fetchers n') = Some 0)"
proof -
  define n' where "n' = \<lparr>store = mapStore [],
            fetchers = \<lparr>cache_size = 2, evictList = ([] :: (key \<times> nat) list)\<rparr>,
            heap = [fetcherX\<lparr>peers := {}, requestCnt := 0, ctxCancelled := True, cancelCalls := 1\<rparr>]\<rparr>"
  have ex: "Fetch_exit cancelled ctx_Done 0 waitingX = Some ((None, Some ''context canceled''), n')"
    by (simp add: exit_waitingX n'_def)
  have k: "cancel fetcherX = StringKey (hex_EncodeToString (addr fetcherX))"
    by (simp add: fetcherX_def hex_addrX)
  have z: "requestCnt fetcherX - 1 = 0" "requestCnt fetcherX = 1" "addr fetcherX = addrX"
      "cancelCalls fetcherX = 0"
    by (simp_all add: fetcherX_def)
  have m: "fst (cs_Get (store n') live addrX (cs_state (store n'))) = (None, Some ''chunk not found'')"
    by (simp add: n'_def mapStore_def mapStore_Get_def)
  have len: "length (heap n') = 1"
    by (simp add: n'_def)
  note t = Fetch_count_and_teardown [OF heap_waitingX, of live]
  note u = Fetch_count_and_teardown [OF heap_waitingX, of cancelled]
  from t have a: "map_option requestCnt (heap_get (heap (Fetch_enter live 0 waitingX)) 0) = Some 2"
    by (auto simp: z)
  from u ex have "\<exists>f'. heap_get (heap n') 0 = Some f'
               \<and> requestCnt f' = 0 \<and> cancelCalls f' = 1 \<and> ctxCancelled f'
               \<and> lru_Peek (StringKey ''01'') (fetchers n') = None
               \<and> fst (getOrCreateFetcher addrX n') = 1
               \<and> fst (get live addrX n') = (None, Some 1, None)"
    using k m z len hex_addrX by (elim conjE allE [of _ ctx_Done] allE [of _ "(None, Some ''context canceled'')"] allE [of _ n']) auto
  then have one: "\<exists>n'. Fetch_exit cancelled ctx_Done 0 waitingX = Some ((None, Some ''context canceled''), n')
        \<and> map_option requestCnt (heap_get (heap n') 0) = Some 0
        \<and> map_option cancelCalls (heap_get (heap n') 0) = Some 1
        \<and> map_option ctxCancelled (heap_get (heap n') 0) = Some True
        \<and> lru_Peek (StringKey ''01'') (fetchers n') = None
        \<and> fst (getOrCreateFetcher addrX n') = 1
        \<and> fst (cs_Get (store n') live addrX (cs_state (store n'))) = (None, Some ''chunk not found'')
        \<and> fst (get live addrX n') = (None, Some 1, None)"
    using ex m by auto
  have h2: "heap_get (heap (Fetch_enter live 0 waitingX)) 0
              = Some (fetcherX\<lparr>requestCnt := 2, fetchCalls := [live, live]\<rparr>)"
    by (simp add: twoWaiting heap_get_def)
  define n2 where "n2 = waitingX\<lparr>heap := [fetcherX\<lparr>requestCnt := 1, fetchCalls := [live, live], peers := {}\<rparr>]\<rparr>"
  have ex2: "Fetch_exit cancelled ctx_Done 0 (Fetch_enter live 0 waitingX)
               = Some ((None, Some ''context canceled''), n2)"
    by (simp add: exit_twoWaiting n2_def)
  have z2: "requestCnt (fetcherX\<lparr>requestCnt := 2, fetchCalls := [live, live]\<rparr>) - 1 \<noteq> 0"
      "requestCnt (fetcherX\<lparr>requestCnt := 2, fetchCalls := [live, live]\<rparr>) - 1 = 1"
      "cancelCalls (fetcherX\<lparr>requestCnt := 2, fetchCalls := [live, live]\<rparr>) = 0"
      "\<not> ctxCancelled (fetcherX\<lparr>requestCnt := 2, fetchCalls := [live, live]\<rparr>)"
    by (simp_all add: fetcherX_def)
  have p2: "lru_Peek (StringKey ''01'') (fetchers (Fetch_enter live 0 waitingX)) = Some 0"
    unfolding twoWaiting by (simp add: waitingX_eq lru_Peek_def)
  note v = Fetch_count_and_teardown [OF h2, of cancelled]
  from v ex2 have "\<exists>f'. heap_get (heap n2) 0 = Some f'
               \<and> requestCnt f' = 1 \<and> cancelCalls f' = 0 \<and> \<not> ctxCancelled f'
               \<and> fetchers n2 = fetchers (Fetch_enter live 0 waitingX)"
    using z2 by (elim conjE allE [of _ ctx_Done] allE [of _ "(None, Some ''context canceled'')"] allE [of _ n2]) auto
  with h2 ex2 p2 have two: "\<exists>n'. Fetch_exit cancelled ctx_Done 0 (Fetch_enter live 0 waitingX)
              = Some ((None, Some ''context canceled''), n')
        \<and> map_option requestCnt (heap_get (heap n') 0) = Some 1
        \<and> map_option cancelCalls (heap_get (heap n') 0) = Some 0
        \<and> map_option ctxCancelled (heap_get (heap n') 0) = Some False
        \<and> lru_Peek (StringKey ''01'') (fetchers n') = Some 0"
    by auto
  from a heap_waitingX k z(2) one h2 two show ?thesis
    by (intro conjI)
qed

subsection \<open>The two ways out of Fetch\<close>

text \<open>
  C3, as the claim states it, fails. In \<open>deliveredX\<close> the delivery signal of the fetcher has
  fired and its chunk is \<open>chunkX\<close>; a call of \<^verbatim>\<open>Fetch\<close> whose context has ended as well
  returns, through the case of the context, a nil chunk and the context's error: the
  delivery has fired and this waiter does not receive the chunk.
\<close>

theorem Fetch_after_delivery_returns_ctx_error:
  "deliver_at 0 chunkX waitingX = (None, deliveredX)
   \<and> map_option deliveredC (heap_get (heap deliveredX) 0) = Some True
   \<and> map_option chunk (heap_get (heap deliveredX) 0) = Some (Some chunkX)
   \<and> map_option fst (Fetch_exit cancelled ctx_Done 0 deliveredX)
       = Some (None, Some ''context canceled'')"
  by (simp add: deliveredX_def deliver_at_waitingX heap_get_def Fetch_exit_def Fetch_select_def
      cancelled_def)

text \<open>
  C3, amended. A call of \<^verbatim>\<open>Fetch\<close> has two terminal outcomes and no other: a nil chunk
  with the context's error, which needs the caller's context to have ended, and the chunk of
  the fetcher with a nil error, which needs the delivery signal to have fired. When only the
  context has ended the call returns, and whatever it returns is the context's error; when
  only the delivery has fired the call returns, and whatever it returns is the delivered
  chunk; when both have happened either outcome can be returned; when neither has happened
  the call stays blocked. After \<^verbatim>\<open>deliver\<close> of a chunk, of any number of waiters that
  leave, each through a case that is ready for it, those that leave through the delivery
  case all return that same chunk and those that leave through their context return its
  error.
\<close>

theorem Fetch_two_outcomes:
  assumes "heap_get (heap n) p = Some f"
  shows "(\<forall>sc r n'. Fetch_exit rctx sc p n = Some (r, n') \<longrightarrow>
            (ctx_err rctx \<noteq> None \<and> r = (None, ctx_err rctx))
          \<or> (deliveredC f \<and> r = (chunk f, None)))
       \<and> (ctx_err rctx \<noteq> None \<and> \<not> deliveredC f \<longrightarrow>
            (\<exists>n'. Fetch_exit rctx ctx_Done p n = Some ((None, ctx_err rctx), n'))
          \<and> (\<forall>sc r n'. Fetch_exit rctx sc p n = Some (r, n') \<longrightarrow> r = (None, ctx_err rctx)))
       \<and> (deliveredC f \<and> ctx_err rctx = None \<longrightarrow>
            (\<exists>n'. Fetch_exit rctx delivered p n = Some ((chunk f, None), n'))
          \<and> (\<forall>sc r n'. Fetch_exit rctx sc p n = Some (r, n') \<longrightarrow> r = (chunk f, None)))
       \<and> (deliveredC f \<and> ctx_err rctx \<noteq> None \<longrightarrow>
            (\<exists>n'. Fetch_exit rctx ctx_Done p n = Some ((None, ctx_err rctx), n'))
          \<and> (\<exists>n'. Fetch_exit rctx delivered p n = Some ((chunk f, None), n')))
       \<and> (ctx_err rctx = None \<and> \<not> deliveredC f \<longrightarrow> (\<forall>sc. Fetch_exit rctx sc p n = None))
       \<and> (\<forall>ch n1 ws. deliver_at p ch n = (None, n1)
              \<and> (\<forall>w \<in> set ws. snd w = ctx_Done \<longrightarrow> ctx_err (fst w) \<noteq> None) \<longrightarrow>
            Fetch_exits ws p n1
              = Some (map (\<lambda>w. case snd w of ctx_Done \<Rightarrow> (None, ctx_err (fst w))
                                             | delivered \<Rightarrow> (Some ch, None)) ws))"
proof (intro conjI allI impI)
  fix sc r n'
  assume "Fetch_exit rctx sc p n = Some (r, n')"
  then show "(ctx_err rctx \<noteq> None \<and> r = (None, ctx_err rctx))
          \<or> (deliveredC f \<and> r = (chunk f, None))"
    by (cases sc) (auto simp: Fetch_exit_Some [OF assms] Fetch_select_def split: if_splits)
next
  assume "ctx_err rctx \<noteq> None \<and> \<not> deliveredC f"
  then show "\<exists>n'. Fetch_exit rctx ctx_Done p n = Some ((None, ctx_err rctx), n')"
    by (auto simp: Fetch_exit_Some [OF assms] Fetch_select_def)
next
  fix sc r n'
  assume "ctx_err rctx \<noteq> None \<and> \<not> deliveredC f" and "Fetch_exit rctx sc p n = Some (r, n')"
  then show "r = (None, ctx_err rctx)"
    by (cases sc) (auto simp: Fetch_exit_Some [OF assms] Fetch_select_def split: if_splits)
next
  assume "deliveredC f \<and> ctx_err rctx = None"
  then show "\<exists>n'. Fetch_exit rctx delivered p n = Some ((chunk f, None), n')"
    by (auto simp: Fetch_exit_Some [OF assms] Fetch_select_def)
next
  fix sc r n'
  assume "deliveredC f \<and> ctx_err rctx = None" and "Fetch_exit rctx sc p n = Some (r, n')"
  then show "r = (chunk f, None)"
    by (cases sc) (auto simp: Fetch_exit_Some [OF assms] Fetch_select_def split: if_splits)
next
  assume "deliveredC f \<and> ctx_err rctx \<noteq> None"
  then show "\<exists>n'. Fetch_exit rctx ctx_Done p n = Some ((None, ctx_err rctx), n')"
    and "\<exists>n'. Fetch_exit rctx delivered p n = Some ((chunk f, None), n')"
    by (auto simp: Fetch_exit_Some [OF assms] Fetch_select_def)
next
  fix sc
  assume "ctx_err rctx = None \<and> \<not> deliveredC f"
  then show "Fetch_exit rctx sc p n = None"
    by (cases sc) (auto simp: Fetch_exit_Some [OF assms] Fetch_select_def)
next
  fix ch n1 and ws :: "(Context \<times> select_case) list"
  assume d: "deliver_at p ch n = (None, n1)
              \<and> (\<forall>w \<in> set ws. snd w = ctx_Done \<longrightarrow> ctx_err (fst w) \<noteq> None)"
  have len: "p < length (heap n)"
    using assms by (simp add: heap_get_Some)
  have n1: "n1 = n\<lparr>heap := (heap n)[p := snd (deliver ch f)]\<rparr>" and ok: "fst (deliver ch f) = None"
    using d by (simp_all add: deliver_at_Some [OF assms])
  have "\<not> deliveredC f"
    using ok by (auto simp: deliver_def Let_def split: if_splits)
  then have df: "snd (deliver ch f) = f\<lparr>chunk := Some ch, deliveredC := True\<rparr>"
    by (simp add: deliver_def Let_def)
  have h: "heap_get (heap n1) p = Some (f\<lparr>chunk := Some ch, deliveredC := True\<rparr>)"
    using len by (simp add: n1 df heap_get_def)
  have w: "\<forall>w \<in> set ws. snd w = ctx_Done \<longrightarrow> ctx_err (fst w) \<noteq> None"
    using d by simp
  show "Fetch_exits ws p n1
          = Some (map (\<lambda>w. case snd w of ctx_Done \<Rightarrow> (None, ctx_err (fst w))
                                         | delivered \<Rightarrow> (Some ch, None)) ws)"
    by (rule Fetch_exits_delivered [OF h]) (use w in simp_all)
qed

theorem Fetch_two_outcomes_witness:
  "heap_get (heap waitingX) 0 = Some fetcherX
   \<and> \<not> deliveredC fetcherX \<and> ctx_err live = None \<and> ctx_err cancelled = Some ''context canceled''
   \<and> Fetch_exit live ctx_Done 0 waitingX = None
   \<and> Fetch_exit live delivered 0 waitingX = None
   \<and> map_option fst (Fetch_exit cancelled ctx_Done 0 waitingX)
       = Some (None, Some ''context canceled'')
   \<and> deliver_at 0 chunkX waitingX = (None, deliveredX)
   \<and> map_option deliveredC (heap_get (heap deliveredX) 0) = Some True
   \<and> map_option fst (Fetch_exit live delivered 0 deliveredX) = Some (Some chunkX, None)
   \<and> map_option fst (Fetch_exit cancelled delivered 0 deliveredX) = Some (Some chunkX, None)
   \<and> map_option fst (Fetch_exit cancelled ctx_Done 0 deliveredX)
       = Some (None, Some ''context canceled'')
   \<and> Fetch_exits [(live, delivered), (cancelled, ctx_Done), (cancelled, delivered)] 0 deliveredX
       = Some [(Some chunkX, None), (None, Some ''context canceled''), (Some chunkX, None)]"
proof -
  have f: "\<not> deliveredC fetcherX"
    by (simp add: fetcherX_def)
  have fd: "deliveredC (fetcherX\<lparr>chunk := Some chunkX, deliveredC := True\<rparr>)"
      "chunk (fetcherX\<lparr>chunk := Some chunkX, deliveredC := True\<rparr>) = Some chunkX"
    by simp_all
  have c: "ctx_err live = None" "ctx_err cancelled = Some ''context canceled''"
    by (simp_all add: live_def cancelled_def)
  have d: "deliver_at 0 chunkX waitingX = (None, deliveredX)"
    by (simp add: deliveredX_def deliver_at_waitingX)
  have hd: "map_option deliveredC (heap_get (heap deliveredX) 0) = Some True"
    by (simp add: heap_deliveredX)
  note a = Fetch_two_outcomes [OF heap_waitingX, of live]
  note b = Fetch_two_outcomes [OF heap_waitingX, of cancelled]
  note e = Fetch_two_outcomes [OF heap_deliveredX, of live]
  note g = Fetch_two_outcomes [OF heap_deliveredX, of cancelled]
  have 1: "Fetch_exit live ctx_Done 0 waitingX = None" "Fetch_exit live delivered 0 waitingX = None"
    using a f c by simp_all
  have "\<exists>n'. Fetch_exit cancelled ctx_Done 0 waitingX = Some ((None, ctx_err cancelled), n')"
    using b f c by simp
  then have 2: "map_option fst (Fetch_exit cancelled ctx_Done 0 waitingX)
                  = Some (None, Some ''context canceled'')"
    using c by auto
  have "\<exists>n'. Fetch_exit live delivered 0 deliveredX
               = Some ((chunk (fetcherX\<lparr>chunk := Some chunkX, deliveredC := True\<rparr>), None), n')"
    using e fd c by simp
  then have 3: "map_option fst (Fetch_exit live delivered 0 deliveredX) = Some (Some chunkX, None)"
    by auto
  have "(\<exists>n'. Fetch_exit cancelled ctx_Done 0 deliveredX = Some ((None, ctx_err cancelled), n'))
      \<and> (\<exists>n'. Fetch_exit cancelled delivered 0 deliveredX
               = Some ((chunk (fetcherX\<lparr>chunk := Some chunkX, deliveredC := True\<rparr>), None), n'))"
    using g fd c by simp
  then have 4: "map_option fst (Fetch_exit cancelled delivered 0 deliveredX) = Some (Some chunkX, None)"
      "map_option fst (Fetch_exit cancelled ctx_Done 0 deliveredX)
         = Some (None, Some ''context canceled'')"
    using c by auto
  have w: "\<forall>w \<in> set [(live, delivered), (cancelled, ctx_Done), (cancelled, delivered)].
             snd w = ctx_Done \<longrightarrow> ctx_err (fst w) \<noteq> None"
    by (simp add: c)
  have "Fetch_exits [(live, delivered), (cancelled, ctx_Done), (cancelled, delivered)] 0 deliveredX
          = Some (map (\<lambda>w. case snd w of ctx_Done \<Rightarrow> (None, ctx_err (fst w))
                                         | delivered \<Rightarrow> (Some chunkX, None))
                   [(live, delivered), (cancelled, ctx_Done), (cancelled, delivered)])"
    using a d w by blast
  then have 5: "Fetch_exits [(live, delivered), (cancelled, ctx_Done), (cancelled, delivered)] 0 deliveredX
       = Some [(Some chunkX, None), (None, Some ''context canceled''), (Some chunkX, None)]"
    by (simp add: c)
  from heap_waitingX f c d hd 1 2 3 4 5 show ?thesis
    by (intro conjI)
qed

subsection \<open>One fetcher for an address\<close>

text \<open>
  C4. While the cache holds a fetcher under the hex key of an address,
  \<^verbatim>\<open>getOrCreateFetcher\<close> for that address returns that fetcher, allocates nothing and
  leaves the contents of the cache as they are, so that the same holds again after it; and
  \<^verbatim>\<open>get\<close> on a miss of the local store returns the \<^verbatim>\<open>Fetch\<close> of that fetcher. Any
  number of further lookups returns the same fetcher and creates no second one.
\<close>

theorem getOrCreateFetcher_idempotent:
  assumes "lru_Peek (StringKey (hex_EncodeToString ref)) (fetchers n) = Some f"
  shows "fst (getOrCreateFetcher ref n) = f
       \<and> heap (snd (getOrCreateFetcher ref n)) = heap n
       \<and> (\<forall>k. lru_Peek k (fetchers (snd (getOrCreateFetcher ref n))) = lru_Peek k (fetchers n))
       \<and> (\<forall>ctx c e. fst (cs_Get (store n) ctx ref (cs_state (store n))) = (c, Some e) \<longrightarrow>
            fst (get ctx ref n) = (None, Some f, None)
          \<and> heap (snd (get ctx ref n)) = heap n
          \<and> lru_Peek (StringKey (hex_EncodeToString ref)) (fetchers (snd (get ctx ref n))) = Some f)
       \<and> (\<forall>i. fst (getOrCreateFetcher ref (((\<lambda>m. snd (getOrCreateFetcher ref m)) ^^ i) n)) = f
              \<and> heap (((\<lambda>m. snd (getOrCreateFetcher ref m)) ^^ i) n) = heap n)"
proof (intro conjI allI impI)
  show "fst (getOrCreateFetcher ref n) = f" "heap (snd (getOrCreateFetcher ref n)) = heap n"
    and "\<And>k. lru_Peek k (fetchers (snd (getOrCreateFetcher ref n))) = lru_Peek k (fetchers n)"
    by (simp_all add: getOrCreateFetcher_present [OF assms])
next
  fix ctx c e
  assume m: "fst (cs_Get (store n) ctx ref (cs_state (store n))) = (c, Some e)"
  have p: "lru_Peek (StringKey (hex_EncodeToString ref)) (fetchers (snd (store_Get ctx ref n))) = Some f"
    using assms by (simp add: store_Get_simps)
  show "fst (get ctx ref n) = (None, Some f, None)"
    and "heap (snd (get ctx ref n)) = heap n"
    and "lru_Peek (StringKey (hex_EncodeToString ref)) (fetchers (snd (get ctx ref n))) = Some f"
    using p by (simp_all add: get_miss [OF m] getOrCreateFetcher_present [OF p] store_Get_simps)
next
  fix i
  show "fst (getOrCreateFetcher ref (((\<lambda>m. snd (getOrCreateFetcher ref m)) ^^ i) n)) = f"
    and "heap (((\<lambda>m. snd (getOrCreateFetcher ref m)) ^^ i) n) = heap n"
    using getOrCreateFetcher_repeat [OF assms, of i]
    by (simp_all add: getOrCreateFetcher_present)
qed

theorem getOrCreateFetcher_idempotent_witness:
  "lru_Peek (StringKey (hex_EncodeToString addrX)) (fetchers waitingX) = Some 0
   \<and> fst (getOrCreateFetcher addrX waitingX) = 0
   \<and> heap (snd (getOrCreateFetcher addrX waitingX)) = heap waitingX
   \<and> fst (cs_Get (store waitingX) live addrX (cs_state (store waitingX)))
       = (None, Some ''chunk not found'')
   \<and> fst (get live addrX waitingX) = (None, Some 0, None)
   \<and> heap (snd (get live addrX waitingX)) = heap waitingX
   \<and> length (heap waitingX) = 1
   \<and> fst (getOrCreateFetcher addrX
        (snd (getOrCreateFetcher addrX (snd (getOrCreateFetcher addrX waitingX))))) = 0"
proof -
  have p: "lru_Peek (StringKey (hex_EncodeToString addrX)) (fetchers waitingX) = Some 0"
    by (simp add: waitingX_eq lru_Peek_def hex_addrX)
  have m: "fst (cs_Get (store waitingX) live addrX (cs_state (store waitingX)))
             = (None, Some ''chunk not found'')"
    by (simp add: waitingX_eq mapStore_def mapStore_Get_def)
  have l: "length (heap waitingX) = 1"
    by (simp add: waitingX_eq)
  note t = getOrCreateFetcher_idempotent [OF p]
  from t have "fst (getOrCreateFetcher addrX (((\<lambda>m. snd (getOrCreateFetcher addrX m)) ^^ 2) waitingX)) = 0"
    by blast
  then have r: "fst (getOrCreateFetcher addrX
        (snd (getOrCreateFetcher addrX (snd (getOrCreateFetcher addrX waitingX))))) = 0"
    by (simp add: numeral_2_eq_2)
  from t m have "fst (get live addrX waitingX) = (None, Some 0, None)
          \<and> heap (snd (get live addrX waitingX)) = heap waitingX"
    by blast
  with t p m l r show ?thesis
    by simp
qed

subsection \<open>Eviction from the full cache\<close>

text \<open>
  C10. When the cache is full and a lookup of a new address misses, adding the new fetcher
  evicts the least recently used entry without its teardown: the evicted fetcher is exactly
  as it was (its context is not cancelled, \<open>cancel\<close> has not run, its requests are still
  counted), a waiter on it with a live context stays blocked, and the next lookup of the
  evicted fetcher's address makes a second fetcher for the same address, while the first
  still exists. Such a state is reached by \<^verbatim>\<open>NewNetStore\<close> with capacity 2, a lookup of
  \<open>addrX\<close> whose caller waits in \<^verbatim>\<open>Fetch\<close>, a lookup of \<open>addrY\<close> and a lookup of
  \<open>addrZ\<close>, as the instance after the theorem shows; \<open>full_cache_reachable\<close> gives
  such a state for every capacity.
\<close>

theorem eviction_skips_teardown:
  assumes full: "int (length (evictList (fetchers n))) = cache_size (fetchers n)"
    and ne: "evictList (fetchers n) \<noteq> []"
    and dist: "distinct (map fst (evictList (fetchers n)))"
    and lru: "last (evictList (fetchers n)) = (StringKey (hex_EncodeToString (addr f)), p)"
    and obj: "heap_get (heap n) p = Some f"
    and new: "lru_Peek (StringKey (hex_EncodeToString ref)) (fetchers n) = None"
  shows "lru_Peek (StringKey (hex_EncodeToString (addr f)))
           (fetchers (snd (getOrCreateFetcher ref n))) = None
       \<and> heap_get (heap (snd (getOrCreateFetcher ref n))) p = Some f
       \<and> (\<forall>rctx sc. ctx_err rctx = None \<and> \<not> deliveredC f \<longrightarrow>
            Fetch_exit rctx sc p (snd (getOrCreateFetcher ref n)) = None)
       \<and> fst (getOrCreateFetcher (addr f) (snd (getOrCreateFetcher ref n))) \<noteq> p
       \<and> heap_get (heap (snd (getOrCreateFetcher (addr f) (snd (getOrCreateFetcher ref n)))))
           (fst (getOrCreateFetcher (addr f) (snd (getOrCreateFetcher ref n))))
           = Some (newFetcher (addr f) (StringKey (hex_EncodeToString (addr f))))
       \<and> heap_get (heap (snd (getOrCreateFetcher (addr f) (snd (getOrCreateFetcher ref n))))) p
           = Some f
       \<and> lru_Peek (StringKey (hex_EncodeToString (addr f)))
           (fetchers (snd (getOrCreateFetcher (addr f) (snd (getOrCreateFetcher ref n)))))
           = Some (fst (getOrCreateFetcher (addr f) (snd (getOrCreateFetcher ref n))))"
proof -
  define n1 where "n1 = snd (getOrCreateFetcher ref n)"
  define n2 where "n2 = snd (getOrCreateFetcher (addr f) n1)"
  have plen: "p < length (heap n)"
    using obj by (simp add: heap_get_Some)
  have n1: "n1 = n\<lparr>fetchers := snd (lru_Add (StringKey (hex_EncodeToString ref)) (length (heap n)) (fetchers n)),
                   heap := heap n @ [newFetcher ref (StringKey (hex_EncodeToString ref))]\<rparr>"
    by (simp add: n1_def getOrCreateFetcher_miss [OF new])
  have gone: "lru_Peek (StringKey (hex_EncodeToString (addr f))) (fetchers n1) = None"
    using lru_Add_evicts(2) [OF full ne dist new, of "length (heap n)"] lru
    by (simp add: n1)
  have obj1: "heap_get (heap n1) p = Some f"
    using obj plen by (simp add: n1 heap_get_def nth_append)
  have blocked: "Fetch_exit rctx sc p n1 = None" if "ctx_err rctx = None \<and> \<not> deliveredC f" for rctx sc
    using that by (cases sc) (simp_all add: Fetch_exit_Some [OF obj1] Fetch_select_def)
  have g2: "getOrCreateFetcher (addr f) n1 =
              (length (heap n1),
               n1\<lparr>fetchers := snd (lru_Add (StringKey (hex_EncodeToString (addr f))) (length (heap n1)) (fetchers n1)),
                  heap := heap n1 @ [newFetcher (addr f) (StringKey (hex_EncodeToString (addr f)))]\<rparr>)"
    by (rule getOrCreateFetcher_miss [OF gone])
  have q: "fst (getOrCreateFetcher (addr f) n1) = length (heap n1)"
    by (simp add: g2)
  have qp: "length (heap n1) \<noteq> p"
    using plen by (simp add: n1)
  have newobj: "heap_get (heap n2) (length (heap n1))
                  = Some (newFetcher (addr f) (StringKey (hex_EncodeToString (addr f))))"
    by (simp add: n2_def g2 heap_get_def)
  have obj2: "heap_get (heap n2) p = Some f"
    using obj1 by (simp add: n2_def g2 heap_get_def nth_append split: if_splits)
  have size1: "0 < cache_size (fetchers n1)"
  proof -
    have "cache_size (fetchers n1) = cache_size (fetchers n)"
      by (simp add: n1 lru_Add_evicts(1) [OF full ne dist new])
    moreover have "0 < int (length (evictList (fetchers n)))"
      using ne by simp
    ultimately show ?thesis
      using full by linarith
  qed
  have reg: "lru_Peek (StringKey (hex_EncodeToString (addr f))) (fetchers n2) = Some (length (heap n1))"
    using getOrCreateFetcher_registered [OF size1, of "addr f"]
    by (simp add: n2_def q)
  show ?thesis
    using gone obj1 blocked q qp newobj obj2 reg
    unfolding n1_def [symmetric] n2_def [symmetric]
    by simp
qed

theorem eviction_skips_teardown_witness:
  "NewNetStore (mapStore []) 2 = Inr netstore0
   \<and> waitingX = Fetch_enter live 0 (snd (get live addrX netstore0))
   \<and> fullXY = snd (get live addrY waitingX)
   \<and> int (length (evictList (fetchers fullXY))) = cache_size (fetchers fullXY)
   \<and> last (evictList (fetchers fullXY)) = (StringKey (hex_EncodeToString (addr fetcherX)), 0)
   \<and> heap_get (heap fullXY) 0 = Some fetcherX
   \<and> requestCnt fetcherX = 1 \<and> \<not> ctxCancelled fetcherX \<and> cancelCalls fetcherX = 0
   \<and> lru_Peek (StringKey (hex_EncodeToString addrZ)) (fetchers fullXY) = None
   \<and> fst (get live addrZ fullXY) = (None, Some 2, None)
   \<and> snd (get live addrZ fullXY) = snd (getOrCreateFetcher addrZ fullXY)
   \<and> lru_Peek (StringKey ''01'') (fetchers (snd (get live addrZ fullXY))) = None
   \<and> heap_get (heap (snd (get live addrZ fullXY))) 0 = Some fetcherX
   \<and> Fetch_exit live ctx_Done 0 (snd (get live addrZ fullXY)) = None
   \<and> Fetch_exit live delivered 0 (snd (get live addrZ fullXY)) = None
   \<and> fst (get live addrX (snd (get live addrZ fullXY))) = (None, Some 3, None)
   \<and> heap_get (heap (snd (get live addrX (snd (get live addrZ fullXY))))) 3
       = Some (newFetcher addrX (StringKey ''01''))
   \<and> heap_get (heap (snd (get live addrX (snd (get live addrZ fullXY))))) 0 = Some fetcherX
   \<and> addr fetcherX = addr (newFetcher addrX (StringKey ''01''))"
proof -
  have init: "NewNetStore (mapStore []) 2 = Inr netstore0"
    by (simp add: NewNetStore_empty netstore0_def)
  have full: "int (length (evictList (fetchers fullXY))) = cache_size (fetchers fullXY)"
    and ne: "evictList (fetchers fullXY) \<noteq> []"
    and dist: "distinct (map fst (evictList (fetchers fullXY)))"
    by (simp_all add: fullXY_eq)
  have lru: "last (evictList (fetchers fullXY)) = (StringKey (hex_EncodeToString (addr fetcherX)), 0)"
    by (simp add: fullXY_eq fetcherX_def hex_addrX)
  have obj: "heap_get (heap fullXY) 0 = Some fetcherX"
    by (simp add: fullXY_eq heap_get_def)
  have new: "lru_Peek (StringKey (hex_EncodeToString addrZ)) (fetchers fullXY) = None"
    by (simp add: fullXY_eq lru_Peek_def hex_addrZ)
  have fx: "requestCnt fetcherX = 1" "\<not> ctxCancelled fetcherX" "cancelCalls fetcherX = 0"
      "addr fetcherX = addrX" "\<not> deliveredC fetcherX"
    by (simp_all add: fetcherX_def)
  have mz: "fst (cs_Get (store fullXY) live addrZ (cs_state (store fullXY))) = (None, Some ''chunk not found'')"
    by (simp add: fullXY_eq mapStore_def mapStore_Get_def)
  have sz: "snd (store_Get live addrZ fullXY) = fullXY"
    by (simp add: store_Get_def fullXY_eq mapStore_def mapStore_Get_def)
  have gz: "get live addrZ fullXY =
              ((None, Some (fst (getOrCreateFetcher addrZ fullXY)), None),
               snd (getOrCreateFetcher addrZ fullXY))"
    using get_miss [OF mz] by (simp add: sz)
  define n1 where "n1 = snd (getOrCreateFetcher addrZ fullXY)"
  have st1: "store n1 = mapStore []"
    by (simp add: n1_def getOrCreateFetcher_store fullXY_eq)
  have mx: "fst (cs_Get (store n1) live addrX (cs_state (store n1))) = (None, Some ''chunk not found'')"
    by (simp add: st1 mapStore_def mapStore_Get_def)
  have sx: "snd (store_Get live addrX n1) = n1"
    by (simp add: store_Get_def st1 mapStore_def mapStore_Get_def)
  have gx: "get live addrX n1 =
              ((None, Some (fst (getOrCreateFetcher addrX n1)), None),
               snd (getOrCreateFetcher addrX n1))"
    using get_miss [OF mx] by (simp add: sx)
  have l0: "length (heap fullXY) = 2"
    by (simp add: fullXY_eq)
  have z2: "fst (getOrCreateFetcher addrZ fullXY) = 2"
    by (simp add: getOrCreateFetcher_miss [OF new] l0)
  have l1: "length (heap n1) = 3"
    by (simp add: n1_def getOrCreateFetcher_miss [OF new] l0)
  note t = eviction_skips_teardown [OF full ne dist lru obj new]
  have live: "ctx_err live = None"
    by (simp add: live_def)
  from t have blocked: "Fetch_exit live sc 0 n1 = None" for sc
    using fx live unfolding n1_def by blast
  from t have gone: "lru_Peek (StringKey ''01'') (fetchers n1) = None"
    unfolding n1_def by (simp add: fx hex_addrX)
  have x3: "fst (getOrCreateFetcher addrX n1) = 3"
    using gone by (simp add: getOrCreateFetcher_miss hex_addrX l1)
  have nf: "addr (newFetcher addrX (StringKey ''01'')) = addrX"
    by (simp add: newFetcher_def)
  from t init full lru obj new fx gz gx z2 x3 blocked gone nf show ?thesis
    unfolding n1_def [symmetric]
    by (simp add: waitingX_def fullXY_def hex_addrX n1_def [symmetric])
qed

end
